theory Spec2Isabelle
  imports Complex_Main
begin

section \<open>The dynamic candle matrix of core-matrix.ts\<close>

text \<open>
  A shallow embedding of the class \<open>DynamicMatrix\<close>. A JavaScript \<open>number\<close> is
  modelled as a real number: arithmetic is exact, so the rounding of IEEE doubles is
  outside the model, and so are candle sizes that are NaN or infinite. The only
  non-finite numbers the class ever stores are the initial
  \<open>minPrice = Infinity\<close> and \<open>maxPrice = -Infinity\<close>; they are the value \<open>None\<close> of an
  option, and what JavaScript computes from them is written out where they are read.
  Counters that the source only ever fills with whole numbers (\<open>width\<close>, \<open>column\<close>)
  are integers. \<open>height\<close> is a real number, because \<open>addFirstCandle\<close> stores
  \<open>bodySize + upperWick + lowerWick + 2 * buffer\<close> in it without rounding.
\<close>

subsection \<open>Data\<close>

datatype candle_type = bullish | bearish

record Candle =
  type :: candle_type
  bodySize :: real
  upperWick :: real
  lowerWick :: real

record PositionedCandle = Candle +
  column :: int
  highPrice :: real
  openPrice :: real
  closePrice :: real
  lowPrice :: real

text \<open>
  A grid cell holds one of four one-character strings: the blank \<open>' '\<close>, the filled
  block of a bullish body, the shaded block of a bearish body, and the bar \<open>'|'\<close> of a
  wick. \<open>Hole\<close> is the empty slot JavaScript leaves when an array is written beyond
  its end.
\<close>

datatype cell = Blank | BullBody | BearBody | WickBar | Hole

record DynamicMatrix =
  data :: "cell list list"
  width :: int
  height :: real
  minPrice :: "real option"
  maxPrice :: "real option"
  candles :: "PositionedCandle list"

definition defaultWidth :: int where
  "defaultWidth = 7"

definition defaultHeight :: real where
  "defaultHeight = 7"

definition buffer :: real where
  "buffer = 1"

text \<open>
  A method either returns or throws. The only exception the class can raise is the
  \<open>TypeError\<close> of an assignment \<open>this.data[row][col] = char\<close> whose \<open>this.data[row]\<close>
  is undefined. Both outcomes carry the state the object is left in.
\<close>

datatype outcome = Returned DynamicMatrix | TypeError DynamicMatrix

fun after :: "outcome \<Rightarrow> DynamicMatrix" where
  "after (Returned s) = s"
| "after (TypeError s) = s"

fun returns :: "outcome \<Rightarrow> bool" where
  "returns (Returned s) = True"
| "returns (TypeError s) = False"

fun andThen :: "outcome \<Rightarrow> (DynamicMatrix \<Rightarrow> outcome) \<Rightarrow> outcome" where
  "andThen (Returned s) f = f s"
| "andThen (TypeError s) f = TypeError s"

subsection \<open>The canvas\<close>

text \<open>\<open>Math.round\<close> rounds a tie towards plus infinity.\<close>

definition Math_round :: "real \<Rightarrow> int" where
  "Math_round x = \<lfloor>x + 1 / 2\<rfloor>"

text \<open>The loop of \<open>createEmptyMatrix\<close>: one blank row for every whole \<open>row < height\<close>.\<close>

function createRows :: "nat \<Rightarrow> int \<Rightarrow> real \<Rightarrow> cell list list \<Rightarrow> cell list list" where
  "createRows row w h matrix =
     (if real row < h then createRows (row + 1) w h (matrix @ [replicate (nat w) Blank])
      else matrix)"
  by pat_completeness auto
termination
  by (relation "measure (\<lambda>(row, w, h, matrix). nat \<lceil>h\<rceil> - row)") (auto, linarith)

definition createEmptyMatrix :: "int \<Rightarrow> real \<Rightarrow> cell list list" where
  "createEmptyMatrix w h = createRows 0 w h []"

text \<open>
  The JavaScript assignment \<open>xs[i] = v\<close> on an array: inside the array it replaces the
  element, beyond its end the array grows and the slots in between stay empty.
\<close>

definition assign :: "cell list \<Rightarrow> nat \<Rightarrow> cell \<Rightarrow> cell list" where
  "assign xs i v =
     (if i < length xs then xs[i := v] else xs @ replicate (i - length xs) Hole @ [v])"

text \<open>
  The two copy loops of \<open>expandMatrix\<close>. The new matrix has at least
  \<open>\<lceil>height\<rceil>\<close> rows of at least \<open>width\<close> cells, so the write
  \<open>newMatrix[row][col]\<close> is always inside it.
\<close>

function copyCols :: "DynamicMatrix \<Rightarrow> nat \<Rightarrow> nat \<Rightarrow> cell list list \<Rightarrow> cell list list" where
  "copyCols s row col newMatrix =
     (if int col < width s
      then copyCols s row (col + 1)
             (if row < length (data s) \<and> col < length (data s ! row)
              then newMatrix[row := (newMatrix ! row)[col := data s ! row ! col]]
              else newMatrix)
      else newMatrix)"
  by pat_completeness auto
termination
  by (relation "measure (\<lambda>(s, row, col, newMatrix). nat (width s) - col)") auto

function copyRows :: "DynamicMatrix \<Rightarrow> nat \<Rightarrow> cell list list \<Rightarrow> cell list list" where
  "copyRows s row newMatrix =
     (if real row < height s then copyRows s (row + 1) (copyCols s row 0 newMatrix)
      else newMatrix)"
  by pat_completeness auto
termination
  by (relation "measure (\<lambda>(s, row, newMatrix). nat \<lceil>height s\<rceil> - row)") (auto, linarith)

definition expandMatrix :: "DynamicMatrix \<Rightarrow> int \<Rightarrow> real \<Rightarrow> DynamicMatrix" where
  "expandMatrix s newWidth newHeight =
     (if newWidth \<le> width s \<and> newHeight \<le> height s then s
      else
        let actualWidth = max (width s) newWidth;
            actualHeight = max (height s) newHeight;
            newMatrix = createEmptyMatrix actualWidth actualHeight
        in s\<lparr>data := copyRows s 0 newMatrix, width := actualWidth, height := actualHeight\<rparr>)"

text \<open>
  \<open>setCell\<close> guards the write with \<open>0 \<le> row < height\<close> and \<open>0 \<le> col < width\<close>. Inside
  the guard \<open>this.data[row]\<close> is still undefined when \<open>row\<close> is not a whole number (or
  the grid has no such row), and the assignment throws.
\<close>

definition setCell :: "DynamicMatrix \<Rightarrow> real \<Rightarrow> int \<Rightarrow> cell \<Rightarrow> outcome" where
  "setCell s row col char =
     (if row \<ge> 0 \<and> row < height s \<and> col \<ge> 0 \<and> col < width s
      then
        (if real_of_int \<lfloor>row\<rfloor> = row \<and> nat \<lfloor>row\<rfloor> < length (data s)
         then Returned (s\<lparr>data := (data s)[nat \<lfloor>row\<rfloor> :=
                 assign (data s ! nat \<lfloor>row\<rfloor>) (nat col) char]\<rparr>)
         else TypeError s)
      else Returned s)"

subsection \<open>The coordinate mapper\<close>

text \<open>
  \<open>priceToRow\<close>. The result \<open>None\<close> is NaN. With candles present and
  \<open>maxPrice = -Infinity\<close> the range is \<open>-Infinity\<close> and the normalised price is
  \<open>-Infinity / -Infinity\<close>, which is NaN; with a finite \<open>maxPrice\<close> and
  \<open>minPrice = Infinity\<close> the normalised price is a zero and the row is \<open>buffer\<close>
  before clamping. The quotient and the product that \<open>Math.round\<close> receives are exact
  here. The doubles of the source can fall on the other side of a half, as
  \<open>(103.5 - 96) / 11 * 11\<close> does (just below \<open>7.5\<close> in doubles, \<open>15 / 2\<close> here), and
  the rounded row then differs by one; the two early returns and the final clamp are
  the same in both.
\<close>

definition priceToRow :: "DynamicMatrix \<Rightarrow> real \<Rightarrow> real option" where
  "priceToRow s price =
     (if length (candles s) = 0 then Some 0
      else
        (case maxPrice s of
           None \<Rightarrow> None
         | Some maxP \<Rightarrow>
            (case minPrice s of
               None \<Rightarrow> Some (max buffer (min buffer (height s - buffer - 1)))
             | Some minP \<Rightarrow>
                let priceRange = maxP - minP in
                if priceRange = 0 then Some (real_of_int \<lfloor>height s / 2\<rfloor>)
                else
                  let normalized = (maxP - price) / priceRange;
                      availableHeight = height s - 2 * buffer;
                      row = buffer + real_of_int (Math_round (normalized * availableHeight))
                  in Some (max buffer (min row (height s - buffer - 1))))))"

subsection \<open>The candle renderer\<close>

function upperWickLoop :: "real \<Rightarrow> real \<Rightarrow> int \<Rightarrow> DynamicMatrix \<Rightarrow> outcome" where
  "upperWickLoop row bodyTopRow col s =
     (if row < bodyTopRow
      then andThen (setCell s row col WickBar) (upperWickLoop (row + 1) bodyTopRow col)
      else Returned s)"
  by pat_completeness auto
termination
  by (relation "measure (\<lambda>(row, bodyTopRow, col, s). nat \<lceil>bodyTopRow - row\<rceil>)")
     (auto, linarith)

function bodyLoop :: "real \<Rightarrow> real \<Rightarrow> int \<Rightarrow> cell \<Rightarrow> DynamicMatrix \<Rightarrow> outcome" where
  "bodyLoop row bodyBottomRow col bodySymbol s =
     (if row \<le> bodyBottomRow
      then
        andThen (if col > 0 then setCell s row (col - 1) bodySymbol else Returned s) (\<lambda>s1.
        andThen (setCell s1 row col bodySymbol) (\<lambda>s2.
        andThen (if col < width s2 - 1 then setCell s2 row (col + 1) bodySymbol else Returned s2)
          (bodyLoop (row + 1) bodyBottomRow col bodySymbol)))
      else Returned s)"
  by pat_completeness auto
termination
  by (relation "measure (\<lambda>(row, bodyBottomRow, col, bodySymbol, s). nat (\<lfloor>bodyBottomRow - row\<rfloor> + 1))")
     (auto, linarith)

function lowerWickLoop :: "real \<Rightarrow> real \<Rightarrow> int \<Rightarrow> DynamicMatrix \<Rightarrow> outcome" where
  "lowerWickLoop row lowRow col s =
     (if row \<le> lowRow
      then andThen (setCell s row col WickBar) (lowerWickLoop (row + 1) lowRow col)
      else Returned s)"
  by pat_completeness auto
termination
  by (relation "measure (\<lambda>(row, lowRow, col, s). nat (\<lfloor>lowRow - row\<rfloor> + 1))")
     (auto, linarith)

declare createRows.simps [simp del] copyCols.simps [simp del] copyRows.simps [simp del]
  upperWickLoop.simps [simp del] bodyLoop.simps [simp del] lowerWickLoop.simps [simp del]

text \<open>
  \<open>drawCandle\<close>. A NaN row makes every loop guard it meets false: nothing is drawn.
  NaN comes from the price bounds alone, so the four rows are NaN together.
\<close>

definition drawCandle :: "DynamicMatrix \<Rightarrow> PositionedCandle \<Rightarrow> outcome" where
  "drawCandle s candle =
     (case priceToRow s (highPrice candle) of None \<Rightarrow> Returned s | Some highRow \<Rightarrow>
      case priceToRow s (openPrice candle) of None \<Rightarrow> Returned s | Some openRow \<Rightarrow>
      case priceToRow s (closePrice candle) of None \<Rightarrow> Returned s | Some closeRow \<Rightarrow>
      case priceToRow s (lowPrice candle) of None \<Rightarrow> Returned s | Some lowRow \<Rightarrow>
        let bodySymbol = (if type candle = bullish then BullBody else BearBody);
            bodyTopRow = min openRow closeRow;
            bodyBottomRow = max openRow closeRow
        in andThen (upperWickLoop highRow bodyTopRow (column candle) s) (\<lambda>s1.
           andThen (bodyLoop bodyTopRow bodyBottomRow (column candle) bodySymbol s1) (\<lambda>s2.
           lowerWickLoop (bodyBottomRow + 1) lowRow (column candle) s2)))"

subsection \<open>Rules for the drawing loops\<close>

text \<open>
  A property \<open>R\<close> of outcomes holds of a loop when it holds of returning at once and
  every cell write of the loop keeps it. A write of the loop is at a row
  \<open>row + k\<close> that still satisfies the loop guard. With
  \<open>R x = P (after x)\<close> this is an invariant of the state however the loop ends; with
  \<open>R x = (returns x \<and> P (after x))\<close> it also shows that the loop does not throw.
\<close>

lemma andThen_rule:
  assumes "R x" and "\<And>t. x = Returned t \<Longrightarrow> R (f t)" and "\<And>t. x = TypeError t \<Longrightarrow> R x \<Longrightarrow> R (TypeError t)"
  shows "R (andThen x f)"
  using assms by (cases x) auto

lemma upperWickLoop_rule:
  assumes "R (Returned s)"
    and "\<And>t k. R (Returned t) \<Longrightarrow> row + real k < bodyTopRow
           \<Longrightarrow> R (setCell t (row + real k) col WickBar)"
  shows "R (upperWickLoop row bodyTopRow col s)"
  using assms
proof (induction row bodyTopRow col s rule: upperWickLoop.induct)
  case (1 row bodyTopRow col s)
  show ?case
  proof (cases "row < bodyTopRow")
    case False
    then show ?thesis using "1.prems"(1) by (subst upperWickLoop.simps) simp
  next
    case True
    have step: "R (setCell s row col WickBar)"
      using "1.prems"(2) [of s 0] "1.prems"(1) True by simp
    have rest: "R (upperWickLoop (row + 1) bodyTopRow col t)" if "R (Returned t)" for t
    proof (rule "1.IH" [OF True that])
      fix u k assume "R (Returned u)" "row + 1 + real k < bodyTopRow"
      then show "R (setCell u (row + 1 + real k) col WickBar)"
        using "1.prems"(2) [of u "Suc k"] by (simp add: algebra_simps)
    qed
    show ?thesis
    proof (cases "setCell s row col WickBar")
      case (Returned t)
      then show ?thesis
        using True step rest by (subst upperWickLoop.simps) simp
    next
      case (TypeError t)
      then show ?thesis
        using True step by (subst upperWickLoop.simps) simp
    qed
  qed
qed

lemma lowerWickLoop_rule:
  assumes "R (Returned s)"
    and "\<And>t k. R (Returned t) \<Longrightarrow> row + real k \<le> lowRow
           \<Longrightarrow> R (setCell t (row + real k) col WickBar)"
  shows "R (lowerWickLoop row lowRow col s)"
  using assms
proof (induction row lowRow col s rule: lowerWickLoop.induct)
  case (1 row lowRow col s)
  show ?case
  proof (cases "row \<le> lowRow")
    case False
    then show ?thesis using "1.prems"(1) by (subst lowerWickLoop.simps) simp
  next
    case True
    have step: "R (setCell s row col WickBar)"
      using "1.prems"(2) [of s 0] "1.prems"(1) True by simp
    have rest: "R (lowerWickLoop (row + 1) lowRow col t)" if "R (Returned t)" for t
    proof (rule "1.IH" [OF True that])
      fix u k assume "R (Returned u)" "row + 1 + real k \<le> lowRow"
      then show "R (setCell u (row + 1 + real k) col WickBar)"
        using "1.prems"(2) [of u "Suc k"] by (simp add: algebra_simps)
    qed
    show ?thesis
    proof (cases "setCell s row col WickBar")
      case (Returned t)
      then show ?thesis
        using True step rest by (subst lowerWickLoop.simps) simp
    next
      case (TypeError t)
      then show ?thesis
        using True step by (subst lowerWickLoop.simps) simp
    qed
  qed
qed

lemma bodyLoop_rule:
  assumes "R (Returned s)"
    and "\<And>t k c. R (Returned t) \<Longrightarrow> row + real k \<le> bodyBottomRow
           \<Longrightarrow> c \<in> {col - 1, col, col + 1} \<Longrightarrow> R (setCell t (row + real k) c ch)"
  shows "R (bodyLoop row bodyBottomRow col ch s)"
  using assms
proof (induction row bodyBottomRow col ch s rule: bodyLoop.induct)
  case (1 row bodyBottomRow col ch s)
  show ?case
  proof (cases "row \<le> bodyBottomRow")
    case False
    then show ?thesis using "1.prems"(1) by (subst bodyLoop.simps) simp
  next
    case True
    have step: "R (setCell t row c ch)" if "R (Returned t)" "c \<in> {col - 1, col, col + 1}" for t c
      using "1.prems"(2) [of t 0 c] that True by simp
    have rest: "R (bodyLoop (row + 1) bodyBottomRow col ch t)" if "R (Returned t)" for t
    proof (rule "1.IH" [OF True that])
      fix u k c assume "R (Returned u)" "row + 1 + real k \<le> bodyBottomRow"
        "c \<in> {col - 1, col, col + 1}"
      then show "R (setCell u (row + 1 + real k) c ch)"
        using "1.prems"(2) [of u "Suc k" c] by (simp add: algebra_simps)
    qed
    have "R (andThen (if col > 0 then setCell s row (col - 1) ch else Returned s) (\<lambda>s1.
        andThen (setCell s1 row col ch) (\<lambda>s2.
        andThen (if col < width s2 - 1 then setCell s2 row (col + 1) ch else Returned s2)
          (bodyLoop (row + 1) bodyBottomRow col ch))))"
    proof (rule andThen_rule [where R = R])
      show "R (if col > 0 then setCell s row (col - 1) ch else Returned s)"
        using step [OF "1.prems"(1), of "col - 1"] "1.prems"(1) by simp
    next
      fix s1 assume "(if col > 0 then setCell s row (col - 1) ch else Returned s) = Returned s1"
      then have R1: "R (Returned s1)"
        using step [OF "1.prems"(1), of "col - 1"] "1.prems"(1) by (auto split: if_splits)
      show "R (andThen (setCell s1 row col ch) (\<lambda>s2.
        andThen (if col < width s2 - 1 then setCell s2 row (col + 1) ch else Returned s2)
          (bodyLoop (row + 1) bodyBottomRow col ch)))"
      proof (rule andThen_rule [where R = R])
        show "R (setCell s1 row col ch)" using step [OF R1, of col] by simp
      next
        fix s2 assume "setCell s1 row col ch = Returned s2"
        then have R2: "R (Returned s2)" using step [OF R1, of col] by simp
        show "R (andThen (if col < width s2 - 1 then setCell s2 row (col + 1) ch else Returned s2)
          (bodyLoop (row + 1) bodyBottomRow col ch))"
        proof (rule andThen_rule [where R = R])
          show "R (if col < width s2 - 1 then setCell s2 row (col + 1) ch else Returned s2)"
            using step [OF R2, of "col + 1"] R2 by simp
        next
          fix s3 assume "(if col < width s2 - 1 then setCell s2 row (col + 1) ch else Returned s2) = Returned s3"
          then have "R (Returned s3)"
            using step [OF R2, of "col + 1"] R2 by (auto split: if_splits)
          then show "R (bodyLoop (row + 1) bodyBottomRow col ch s3)" by (rule rest)
        qed simp
      qed simp
    qed simp
    then show ?thesis
      using True by (subst bodyLoop.simps) simp
  qed
qed

text \<open>
  In \<open>drawCandle\<close> every row written is \<open>lo + k\<close> for a mapped row \<open>lo\<close> of the candle,
  and at most another mapped row \<open>hi\<close> of it; every column written is the candle's or
  next to it.
\<close>

lemma drawCandle_rule:
  assumes "R (Returned s)"
    and "\<And>t k c ch lo hi p q. R (Returned t) \<Longrightarrow> priceToRow s p = Some lo
           \<Longrightarrow> priceToRow s q = Some hi \<Longrightarrow> lo + real k \<le> hi
           \<Longrightarrow> c \<in> {column candle - 1, column candle, column candle + 1}
           \<Longrightarrow> R (setCell t (lo + real k) c ch)"
  shows "R (drawCandle s candle)"
proof (cases "\<exists>highRow openRow closeRow lowRow.
    priceToRow s (highPrice candle) = Some highRow \<and> priceToRow s (openPrice candle) = Some openRow
    \<and> priceToRow s (closePrice candle) = Some closeRow \<and> priceToRow s (lowPrice candle) = Some lowRow")
  case False
  then show ?thesis
    using assms(1) by (auto simp: drawCandle_def split: option.splits)
next
  case True
  then obtain highRow openRow closeRow lowRow where
    rows: "priceToRow s (highPrice candle) = Some highRow"
      "priceToRow s (openPrice candle) = Some openRow"
      "priceToRow s (closePrice candle) = Some closeRow"
      "priceToRow s (lowPrice candle) = Some lowRow"
    by blast
  define ch where "ch = (if type candle = bullish then BullBody else BearBody)"
  define top where "top = min openRow closeRow"
  define bottom where "bottom = max openRow closeRow"
  obtain pt where pt: "priceToRow s pt = Some top"
    using rows(2,3) by (cases "openRow \<le> closeRow") (auto simp: top_def)
  obtain pb where pb: "priceToRow s pb = Some bottom"
    using rows(2,3) by (cases "openRow \<le> closeRow") (auto simp: bottom_def)
  have up: "R (upperWickLoop highRow top (column candle) t)" if "R (Returned t)" for t
    using that by (rule upperWickLoop_rule) (rule assms(2) [OF _ rows(1) pt], auto)
  have body: "R (bodyLoop top bottom (column candle) ch t)" if "R (Returned t)" for t
    using that by (rule bodyLoop_rule) (rule assms(2) [OF _ pt pb], auto)
  have low: "R (lowerWickLoop (bottom + 1) lowRow (column candle) t)" if "R (Returned t)" for t
  proof (rule lowerWickLoop_rule [where R = R, OF that])
    fix u k assume "R (Returned u)" "bottom + 1 + real k \<le> lowRow"
    then show "R (setCell u (bottom + 1 + real k) (column candle) WickBar)"
      using assms(2) [OF _ pb rows(4), of u "Suc k" "column candle"] by (simp add: algebra_simps)
  qed
  have "R (andThen (upperWickLoop highRow top (column candle) s) (\<lambda>s1.
           andThen (bodyLoop top bottom (column candle) ch s1) (\<lambda>s2.
           lowerWickLoop (bottom + 1) lowRow (column candle) s2)))"
  proof (rule andThen_rule [where R = R])
    show "R (upperWickLoop highRow top (column candle) s)" using up assms(1) by simp
  next
    fix s1 assume "upperWickLoop highRow top (column candle) s = Returned s1"
    then have R1: "R (Returned s1)" using up [OF assms(1)] by simp
    show "R (andThen (bodyLoop top bottom (column candle) ch s1) (\<lambda>s2.
           lowerWickLoop (bottom + 1) lowRow (column candle) s2))"
    proof (rule andThen_rule [where R = R])
      show "R (bodyLoop top bottom (column candle) ch s1)" using body R1 by simp
    next
      fix s2 assume "bodyLoop top bottom (column candle) ch s1 = Returned s2"
      then have "R (Returned s2)" using body [OF R1] by simp
      then show "R (lowerWickLoop (bottom + 1) lowRow (column candle) s2)" by (rule low)
    qed simp
  qed simp
  then show ?thesis
    by (simp add: drawCandle_def rows ch_def top_def bottom_def Let_def)
qed

text \<open>Drawing changes the grid and no other field.\<close>

definition only_data :: "DynamicMatrix \<Rightarrow> DynamicMatrix \<Rightarrow> bool" where
  "only_data s s' = (s' = s\<lparr>data := data s'\<rparr>)"

lemma only_data_refl: "only_data s s"
  by (simp add: only_data_def)

lemma only_data_trans: "only_data s t \<Longrightarrow> only_data t u \<Longrightarrow> only_data s u"
  unfolding only_data_def
  by (metis DynamicMatrix.surjective DynamicMatrix.update_convs(1))

lemma only_data_fields:
  "only_data s s' \<Longrightarrow> width s' = width s \<and> height s' = height s \<and> minPrice s' = minPrice s
     \<and> maxPrice s' = maxPrice s \<and> candles s' = candles s"
  unfolding only_data_def
  by (metis DynamicMatrix.select_convs(2-6) DynamicMatrix.surjective DynamicMatrix.update_convs(1))

lemma setCell_only_data: "only_data s (after (setCell s row col char))"
  by (simp add: setCell_def only_data_def)

lemma drawCandle_only_data: "only_data s (after (drawCandle s candle))"
  by (rule drawCandle_rule [where R = "\<lambda>x. only_data s (after x)"])
     (auto intro: only_data_refl only_data_trans setCell_only_data)

lemma drawCandle_candles: "candles (after (drawCandle s candle)) = candles s"
  using drawCandle_only_data only_data_fields by blast

subsection \<open>The candle positioner\<close>

text \<open>
  The loop of \<open>redrawAllCandles\<close>: candle \<open>i\<close> gets its column written back into the
  candle list and is drawn. It ends because drawing leaves the candle list alone.
\<close>

function redrawLoop :: "nat \<Rightarrow> int \<Rightarrow> DynamicMatrix \<Rightarrow> outcome" where
  "redrawLoop i currentColumn s =
     (if i < length (candles s)
      then
        let candle = (candles s ! i)\<lparr>column := currentColumn\<rparr>;
            s1 = s\<lparr>candles := (candles s)[i := candle]\<rparr>
        in (case drawCandle s1 candle of
              Returned s2 \<Rightarrow> redrawLoop (i + 1) (currentColumn + 6) s2
            | TypeError s2 \<Rightarrow> TypeError s2)
      else Returned s)"
  by pat_completeness auto
termination
proof (relation "measure (\<lambda>(i, currentColumn, s). length (candles s) - i)")
  show "wf (measure (\<lambda>(i, currentColumn, s). length (candles s) - i))"
    by simp
next
  fix i :: nat and currentColumn :: int and s candle s1 s2
  assume "i < length (candles s)"
    and "candle = (candles s ! i)\<lparr>column := currentColumn\<rparr>"
    and "s1 = s\<lparr>candles := (candles s)[i := candle]\<rparr>"
    and "drawCandle s1 candle = Returned s2"
  moreover from this have "candles s2 = candles s1"
    using drawCandle_candles [of s1 candle] by simp
  ultimately show "((i + 1, currentColumn + 6, s2), (i, currentColumn, s))
      \<in> measure (\<lambda>(i, currentColumn, s). length (candles s) - i)"
    by simp
qed

declare redrawLoop.simps [simp del]

definition redrawAllCandles :: "DynamicMatrix \<Rightarrow> outcome" where
  "redrawAllCandles s =
     redrawLoop 0 3 (s\<lparr>data := createEmptyMatrix (width s) (height s)\<rparr>)"

text \<open>
  \<open>addFirstCandle\<close>. The source also computes \<open>centerRow\<close> and \<open>halfHeight\<close> and never
  reads them. It does not look at the candles already present.
\<close>

definition addFirstCandle :: "DynamicMatrix \<Rightarrow> Candle \<Rightarrow> outcome" where
  "addFirstCandle s candle =
     (let totalHeight = bodySize candle + upperWick candle + lowerWick candle;
          requiredHeight = totalHeight + 2 * buffer;
          s1 = (if requiredHeight > height s then expandMatrix s (width s) requiredHeight else s);
          highPrice = 100 + upperWick candle;
          lowPrice = 100 - bodySize candle - lowerWick candle;
          openPrice = (if type candle = bullish then 100 - bodySize candle else 100);
          closePrice = (if type candle = bullish then 100 else 100 - bodySize candle);
          positioned = \<lparr>type = type candle, bodySize = bodySize candle,
            upperWick = upperWick candle, lowerWick = lowerWick candle, column = 3,
            highPrice = highPrice, openPrice = openPrice, closePrice = closePrice,
            lowPrice = lowPrice\<rparr>
      in redrawAllCandles (s1\<lparr>candles := candles s1 @ [positioned],
           minPrice := Some lowPrice, maxPrice := Some highPrice\<rparr>))"

text \<open>
  \<open>Math.min(this.minPrice, lowPrice)\<close> and \<open>Math.max(this.maxPrice, highPrice)\<close>, where
  the stored bound may still be the initial infinity and the second argument is finite.
\<close>

definition Math_min :: "real option \<Rightarrow> real \<Rightarrow> real" where
  "Math_min bound x = (case bound of None \<Rightarrow> x | Some m \<Rightarrow> min m x)"

definition Math_max :: "real option \<Rightarrow> real \<Rightarrow> real" where
  "Math_max bound x = (case bound of None \<Rightarrow> x | Some m \<Rightarrow> max m x)"

definition addCandle :: "DynamicMatrix \<Rightarrow> Candle \<Rightarrow> outcome" where
  "addCandle s candle =
     (if length (candles s) = 0 then addFirstCandle s candle
      else
        let prevCandle = candles s ! (length (candles s) - 1);
            prevClose = closePrice prevCandle;
            visualSeparation = 1;
            openPrice =
              (if type prevCandle = bullish \<and> type candle = bullish then prevClose + visualSeparation
               else if type prevCandle = bearish \<and> type candle = bearish then prevClose - visualSeparation
               else prevClose);
            closePrice =
              (if type candle = bullish then openPrice + bodySize candle
               else openPrice - bodySize candle);
            highPrice =
              (if type candle = bullish then closePrice + upperWick candle
               else openPrice + upperWick candle);
            lowPrice =
              (if type candle = bullish then openPrice - lowerWick candle
               else closePrice - lowerWick candle);
            newMin = Math_min (minPrice s) lowPrice;
            newMax = Math_max (maxPrice s) highPrice;
            s1 = s\<lparr>minPrice := Some newMin, maxPrice := Some newMax\<rparr>;
            priceRange = newMax - newMin;
            requiredHeight = real_of_int \<lceil>priceRange\<rceil> + 2 * buffer;
            requiredWidth = (int (length (candles s1)) + 1) * 6 + 3;
            s2 = (if requiredHeight > height s1 \<or> requiredWidth > width s1
                  then expandMatrix s1 requiredWidth requiredHeight else s1);
            positioned = \<lparr>type = type candle, bodySize = bodySize candle,
              upperWick = upperWick candle, lowerWick = lowerWick candle,
              column = column prevCandle + 6,
              highPrice = highPrice, openPrice = openPrice, closePrice = closePrice,
              lowPrice = lowPrice\<rparr>
        in redrawAllCandles (s2\<lparr>candles := candles s2 @ [positioned]\<rparr>))"

text \<open>The constructor: a blank grid of the default size, no candles.\<close>

definition init :: DynamicMatrix where
  "init = \<lparr>data = createEmptyMatrix defaultWidth defaultHeight, width = defaultWidth,
     height = defaultHeight, minPrice = None, maxPrice = None, candles = []\<rparr>"

subsection \<open>The chart methods of index.ts and the charts of test.ts\<close>

text \<open>
  The chart class owns one matrix and forwards its four add methods to it. A session
  is the state of that matrix.
\<close>

definition firstBullish :: "DynamicMatrix \<Rightarrow> real \<Rightarrow> real \<Rightarrow> real \<Rightarrow> outcome" where
  "firstBullish s body upper lower =
     addFirstCandle s \<lparr>type = bullish, bodySize = body, upperWick = upper, lowerWick = lower\<rparr>"

definition firstBearish :: "DynamicMatrix \<Rightarrow> real \<Rightarrow> real \<Rightarrow> real \<Rightarrow> outcome" where
  "firstBearish s body upper lower =
     addFirstCandle s \<lparr>type = bearish, bodySize = body, upperWick = upper, lowerWick = lower\<rparr>"

definition addBullish :: "DynamicMatrix \<Rightarrow> real \<Rightarrow> real \<Rightarrow> real \<Rightarrow> outcome" where
  "addBullish s body upper lower =
     addCandle s \<lparr>type = bullish, bodySize = body, upperWick = upper, lowerWick = lower\<rparr>"

definition addBearish :: "DynamicMatrix \<Rightarrow> real \<Rightarrow> real \<Rightarrow> real \<Rightarrow> outcome" where
  "addBearish s body upper lower =
     addCandle s \<lparr>type = bearish, bodySize = body, upperWick = upper, lowerWick = lower\<rparr>"

text \<open>
  Test 1 of test.ts is \<open>firstBearish(3, 1, 2)\<close> on a new chart; Test 2 goes on with
  \<open>addBullish(2, 1, 1)\<close>.
\<close>

definition chart1 :: DynamicMatrix where
  "chart1 = after (firstBearish init 3 1 2)"

definition chart2 :: DynamicMatrix where
  "chart2 = after (addBullish chart1 2 1 1)"

subsection \<open>What a redraw keeps\<close>

lemma redrawLoop_rule:
  assumes "R (Returned s)"
    and "\<And>t j c. R (Returned t) \<Longrightarrow> j < length (candles t)
           \<Longrightarrow> R (Returned (t\<lparr>candles := (candles t)[j := (candles t ! j)\<lparr>column := c\<rparr>]\<rparr>))"
    and "\<And>t j. R (Returned t) \<Longrightarrow> j < length (candles t) \<Longrightarrow> R (drawCandle t (candles t ! j))"
  shows "R (redrawLoop i currentColumn s)"
  using assms(1)
proof (induction i currentColumn s rule: redrawLoop.induct)
  case (1 i currentColumn s)
  show ?case
  proof (cases "i < length (candles s)")
    case False
    then show ?thesis using "1.prems" by (subst redrawLoop.simps) simp
  next
    case True
    define candle where "candle = (candles s ! i)\<lparr>column := currentColumn\<rparr>"
    define s1 where "s1 = s\<lparr>candles := (candles s)[i := candle]\<rparr>"
    have R1: "R (Returned s1)"
      unfolding s1_def candle_def using assms(2) "1.prems" True by blast
    have c1: "candles s1 ! i = candle" "i < length (candles s1)"
      using True by (simp_all add: s1_def)
    have R2: "R (drawCandle s1 candle)"
      using assms(3) [OF R1 c1(2)] c1(1) by simp
    show ?thesis
    proof (cases "drawCandle s1 candle")
      case (Returned s2)
      then have "R (Returned s2)" using R2 by simp
      then have "R (redrawLoop (i + 1) (currentColumn + 6) s2)"
        using "1.IH" [OF True candle_def s1_def Returned] by simp
      then show ?thesis
        using True Returned by (subst redrawLoop.simps) (simp add: candle_def s1_def Let_def)
    next
      case (TypeError s2)
      then show ?thesis
        using True R2 by (subst redrawLoop.simps) (simp add: candle_def s1_def Let_def)
    qed
  qed
qed

text \<open>
  A redraw rewrites the grid and the candles' columns; \<open>uncolumned\<close> forgets the
  columns, so that candle lists can be compared on everything else.
\<close>

definition uncolumned :: "PositionedCandle list \<Rightarrow> PositionedCandle list" where
  "uncolumned cs = map (\<lambda>c. c\<lparr>column := 0\<rparr>) cs"

lemma uncolumned_update:
  "j < length cs \<Longrightarrow> uncolumned (cs[j := (cs ! j)\<lparr>column := c\<rparr>]) = uncolumned cs"
  by (simp add: uncolumned_def list_eq_iff_nth_eq nth_list_update)

definition redrawn :: "DynamicMatrix \<Rightarrow> DynamicMatrix \<Rightarrow> bool" where
  "redrawn s s' = (width s' = width s \<and> height s' = height s \<and> minPrice s' = minPrice s
     \<and> maxPrice s' = maxPrice s \<and> uncolumned (candles s') = uncolumned (candles s))"

lemma redrawLoop_redrawn: "redrawn s (after (redrawLoop i currentColumn s))"
proof (rule redrawLoop_rule [where R = "\<lambda>x. redrawn s (after x)"])
  show "redrawn s (after (Returned s))" by (simp add: redrawn_def)
next
  fix t j c assume "redrawn s (after (Returned t))" "j < length (candles t)"
  then show "redrawn s (after (Returned
      (t\<lparr>candles := (candles t)[j := (candles t ! j)\<lparr>column := c\<rparr>]\<rparr>)))"
    by (simp add: redrawn_def uncolumned_update)
next
  fix t j assume "redrawn s (after (Returned t))" "j < length (candles t)"
  then show "redrawn s (after (drawCandle t (candles t ! j)))"
    using only_data_fields [OF drawCandle_only_data, of t "candles t ! j"]
    by (simp add: redrawn_def)
qed

lemma redrawAllCandles_redrawn: "redrawn s (after (redrawAllCandles s))"
  using redrawLoop_redrawn [of "s\<lparr>data := createEmptyMatrix (width s) (height s)\<rparr>" 0 3]
  by (simp add: redrawAllCandles_def redrawn_def)

subsection \<open>What the two add operations store\<close>

lemma expandMatrix_fields:
  "width (expandMatrix s w h) = max (width s) w \<and> height (expandMatrix s w h) = max (height s) h
   \<and> minPrice (expandMatrix s w h) = minPrice s \<and> maxPrice (expandMatrix s w h) = maxPrice s
   \<and> candles (expandMatrix s w h) = candles s"
  by (simp add: expandMatrix_def Let_def)

lemma uncolumned_append: "uncolumned (xs @ ys) = uncolumned xs @ uncolumned ys"
  by (simp add: uncolumned_def)

lemma uncolumned_length: "length (uncolumned xs) = length xs"
  by (simp add: uncolumned_def)

lemma addFirstCandle_after:
  fixes s candle
  defines "s' \<equiv> after (addFirstCandle s candle)"
  shows "uncolumned (candles s') = uncolumned (candles s) @
      [\<lparr>type = type candle, bodySize = bodySize candle, upperWick = upperWick candle,
        lowerWick = lowerWick candle, column = 0, highPrice = 100 + upperWick candle,
        openPrice = (if type candle = bullish then 100 - bodySize candle else 100),
        closePrice = (if type candle = bullish then 100 else 100 - bodySize candle),
        lowPrice = 100 - bodySize candle - lowerWick candle\<rparr>]"
    and "minPrice s' = Some (100 - bodySize candle - lowerWick candle)"
    and "maxPrice s' = Some (100 + upperWick candle)"
    and "width s' = width s"
    and "height s' = max (height s) (bodySize candle + upperWick candle + lowerWick candle + 2 * buffer)"
proof -
  define s1 where "s1 = (if bodySize candle + upperWick candle + lowerWick candle + 2 * buffer > height s
    then expandMatrix s (width s) (bodySize candle + upperWick candle + lowerWick candle + 2 * buffer) else s)"
  define positioned where "positioned = \<lparr>type = type candle, bodySize = bodySize candle, upperWick = upperWick candle,
        lowerWick = lowerWick candle, column = 3, highPrice = 100 + upperWick candle,
        openPrice = (if type candle = bullish then 100 - bodySize candle else 100),
        closePrice = (if type candle = bullish then 100 else 100 - bodySize candle),
        lowPrice = 100 - bodySize candle - lowerWick candle\<rparr>"
  define s2 where "s2 = s1\<lparr>candles := candles s1 @ [positioned],
           minPrice := Some (100 - bodySize candle - lowerWick candle), maxPrice := Some (100 + upperWick candle)\<rparr>"
  have eq: "s' = after (redrawAllCandles s2)"
    by (simp add: s'_def addFirstCandle_def Let_def s2_def s1_def positioned_def)
  have s1: "width s1 = width s" "candles s1 = candles s"
    "height s1 = max (height s) (bodySize candle + upperWick candle + lowerWick candle + 2 * buffer)"
    by (auto simp: s1_def expandMatrix_fields)
  have r: "redrawn s2 s'"
    unfolding eq by (rule redrawAllCandles_redrawn)
  show "uncolumned (candles s') = uncolumned (candles s) @
      [\<lparr>type = type candle, bodySize = bodySize candle, upperWick = upperWick candle,
        lowerWick = lowerWick candle, column = 0, highPrice = 100 + upperWick candle,
        openPrice = (if type candle = bullish then 100 - bodySize candle else 100),
        closePrice = (if type candle = bullish then 100 else 100 - bodySize candle),
        lowPrice = 100 - bodySize candle - lowerWick candle\<rparr>]"
    using r by (simp add: redrawn_def s2_def s1 uncolumned_append) (simp add: uncolumned_def positioned_def)
  show "minPrice s' = Some (100 - bodySize candle - lowerWick candle)"
    using r by (simp add: redrawn_def s2_def)
  show "maxPrice s' = Some (100 + upperWick candle)"
    using r by (simp add: redrawn_def s2_def)
  show "width s' = width s"
    using r by (simp add: redrawn_def s2_def s1)
  show "height s' = max (height s) (bodySize candle + upperWick candle + lowerWick candle + 2 * buffer)"
    using r by (simp add: redrawn_def s2_def s1)
qed


lemma addCandle_after:
  fixes s candle
  assumes nonempty: "candles s \<noteq> []"
  defines "s' \<equiv> after (addCandle s candle)"
    and "prev \<equiv> last (candles s)"
  defines "openP \<equiv>
      (if type prev = bullish \<and> type candle = bullish then closePrice prev + 1
       else if type prev = bearish \<and> type candle = bearish then closePrice prev - 1
       else closePrice prev)"
  defines "closeP \<equiv> (if type candle = bullish then openP + bodySize candle else openP - bodySize candle)"
  defines "highP \<equiv> (if type candle = bullish then closeP + upperWick candle else openP + upperWick candle)"
    and "lowP \<equiv> (if type candle = bullish then openP - lowerWick candle else closeP - lowerWick candle)"
  shows "uncolumned (candles s') = uncolumned (candles s) @
      [\<lparr>type = type candle, bodySize = bodySize candle, upperWick = upperWick candle,
        lowerWick = lowerWick candle, column = 0, highPrice = highP,
        openPrice = openP, closePrice = closeP, lowPrice = lowP\<rparr>]"
    and "minPrice s' = Some (Math_min (minPrice s) lowP)"
    and "maxPrice s' = Some (Math_max (maxPrice s) highP)"
    and "width s' = max (width s) ((int (length (candles s)) + 1) * 6 + 3)"
    and "height s' = max (height s)
          (real_of_int \<lceil>Math_max (maxPrice s) highP - Math_min (minPrice s) lowP\<rceil> + 2 * buffer)"
proof -
  define s1 where "s1 = s\<lparr>minPrice := Some (Math_min (minPrice s) lowP),
    maxPrice := Some (Math_max (maxPrice s) highP)\<rparr>"
  define rh where "rh = real_of_int \<lceil>Math_max (maxPrice s) highP - Math_min (minPrice s) lowP\<rceil> + 2 * buffer"
  define rw where "rw = (int (length (candles s1)) + 1) * 6 + 3"
  define s2 where "s2 = (if rh > height s1 \<or> rw > width s1 then expandMatrix s1 rw rh else s1)"
  define positioned where "positioned = \<lparr>type = type candle, bodySize = bodySize candle,
        upperWick = upperWick candle, lowerWick = lowerWick candle, column = column prev + 6,
        highPrice = highP, openPrice = openP, closePrice = closeP, lowPrice = lowP\<rparr>"
  have prev: "candles s ! (length (candles s) - 1) = prev"
    using nonempty by (simp add: prev_def last_conv_nth)
  have ne: "(length (candles s) = 0) = False"
    using nonempty by simp
  have eq: "s' = after (redrawAllCandles (s2\<lparr>candles := candles s2 @ [positioned]\<rparr>))"
    by (simp only: s'_def addCandle_def Let_def prev s2_def s1_def positioned_def rh_def rw_def
        openP_def closeP_def highP_def lowP_def ne if_False)
  have rw: "rw = (int (length (candles s)) + 1) * 6 + 3"
    by (simp add: rw_def s1_def)
  have s2: "width s2 = max (width s) rw" "height s2 = max (height s) rh" "candles s2 = candles s"
    "minPrice s2 = Some (Math_min (minPrice s) lowP)" "maxPrice s2 = Some (Math_max (maxPrice s) highP)"
    by (auto simp: s2_def s1_def expandMatrix_fields)
  have r: "redrawn (s2\<lparr>candles := candles s2 @ [positioned]\<rparr>) s'"
    unfolding eq by (rule redrawAllCandles_redrawn)
  show "uncolumned (candles s') = uncolumned (candles s) @
      [\<lparr>type = type candle, bodySize = bodySize candle, upperWick = upperWick candle,
        lowerWick = lowerWick candle, column = 0, highPrice = highP,
        openPrice = openP, closePrice = closeP, lowPrice = lowP\<rparr>]"
    using r by (simp add: redrawn_def s2 uncolumned_append) (simp add: uncolumned_def positioned_def)
  show "minPrice s' = Some (Math_min (minPrice s) lowP)"
    using r by (simp add: redrawn_def s2)
  show "maxPrice s' = Some (Math_max (maxPrice s) highP)"
    using r by (simp add: redrawn_def s2)
  show "width s' = max (width s) ((int (length (candles s)) + 1) * 6 + 3)"
    using r by (simp add: redrawn_def s2 rw)
  show "height s' = max (height s)
          (real_of_int \<lceil>Math_max (maxPrice s) highP - Math_min (minPrice s) lowP\<rceil> + 2 * buffer)"
    using r by (simp add: redrawn_def s2 rh_def)
qed

lemma uncolumned_nth:
  "i < length cs \<Longrightarrow> (uncolumned cs ! i) = (cs ! i)\<lparr>column := 0\<rparr>"
  by (simp add: uncolumned_def)

lemma uncolumned_fields:
  assumes "uncolumned cs = uncolumned ds" "i < length cs"
  shows "type (cs ! i) = type (ds ! i)" "bodySize (cs ! i) = bodySize (ds ! i)"
    "upperWick (cs ! i) = upperWick (ds ! i)" "lowerWick (cs ! i) = lowerWick (ds ! i)"
    "highPrice (cs ! i) = highPrice (ds ! i)" "openPrice (cs ! i) = openPrice (ds ! i)"
    "closePrice (cs ! i) = closePrice (ds ! i)" "lowPrice (cs ! i) = lowPrice (ds ! i)"
proof -
  have len: "length ds = length cs"
    using assms(1) uncolumned_length by metis
  have "(cs ! i)\<lparr>column := 0\<rparr> = (ds ! i)\<lparr>column := 0\<rparr>"
    using assms len uncolumned_nth by metis
  then have e: "f ((cs ! i)\<lparr>column := 0\<rparr>) = f ((ds ! i)\<lparr>column := 0\<rparr>)" for f :: "PositionedCandle \<Rightarrow> 'b"
    by simp
  show "type (cs ! i) = type (ds ! i)" using e [of type] by simp
  show "bodySize (cs ! i) = bodySize (ds ! i)" using e [of bodySize] by simp
  show "upperWick (cs ! i) = upperWick (ds ! i)" using e [of upperWick] by simp
  show "lowerWick (cs ! i) = lowerWick (ds ! i)" using e [of lowerWick] by simp
  show "highPrice (cs ! i) = highPrice (ds ! i)" using e [of highPrice] by simp
  show "openPrice (cs ! i) = openPrice (ds ! i)" using e [of openPrice] by simp
  show "closePrice (cs ! i) = closePrice (ds ! i)" using e [of closePrice] by simp
  show "lowPrice (cs ! i) = lowPrice (ds ! i)" using e [of lowPrice] by simp
qed

subsection \<open>The shape of the grid\<close>

lemma createRows_eq:
  "createRows row w h matrix = matrix @ replicate (nat \<lceil>h\<rceil> - row) (replicate (nat w) Blank)"
proof (induction row w h matrix rule: createRows.induct)
  case (1 row w h matrix)
  show ?case
  proof (cases "real row < h")
    case True
    then have "int row < \<lceil>h\<rceil>" by linarith
    then have "nat \<lceil>h\<rceil> - row = Suc (nat \<lceil>h\<rceil> - (row + 1))" by linarith
    then show ?thesis
      using True "1.IH" by (subst createRows.simps) (simp add: replicate_append_same)
  next
    case False
    then have "\<lceil>h\<rceil> \<le> int row" by (simp add: ceiling_le_iff)
    then have "nat \<lceil>h\<rceil> - row = 0" by linarith
    then show ?thesis
      using False by (subst createRows.simps) simp
  qed
qed

lemma createEmptyMatrix_eq:
  "createEmptyMatrix w h = replicate (nat \<lceil>h\<rceil>) (replicate (nat w) Blank)"
  by (simp add: createEmptyMatrix_def createRows_eq)

text \<open>
  The grid matches the stored extents: a row for every whole number below \<open>height\<close>,
  \<open>width\<close> cells in each row.
\<close>

definition grid_ok :: "DynamicMatrix \<Rightarrow> bool" where
  "grid_ok s = (length (data s) = nat \<lceil>height s\<rceil>
     \<and> list_all (\<lambda>row. length row = nat (width s)) (data s))"

lemma grid_ok_blank: "grid_ok (s\<lparr>data := createEmptyMatrix (width s) (height s)\<rparr>)"
  by (simp add: grid_ok_def createEmptyMatrix_eq list_all_iff)

lemma setCell_grid_ok: "grid_ok s \<Longrightarrow> grid_ok (after (setCell s row col ch))"
  by (auto simp: setCell_def grid_ok_def assign_def list_all_iff dest!: set_update_subset_insert [THEN subsetD])

subsection \<open>The rows that prices map to\<close>

lemma priceToRow_range:
  assumes "priceToRow s p = Some r" "candles s \<noteq> []" "3 \<le> height s"
  shows "buffer \<le> r \<and> r \<le> height s - buffer - 1"
proof -
  have "real_of_int \<lfloor>height s / 2\<rfloor> \<le> height s - 2"
  proof (cases "height s < 4")
    case True
    then have "\<lfloor>height s / 2\<rfloor> = 1" using assms(3) by linarith
    then show ?thesis using assms(3) by simp
  next
    case False
    have "real_of_int \<lfloor>height s / 2\<rfloor> \<le> height s / 2" by linarith
    then show ?thesis using False by linarith
  qed
  moreover have "1 \<le> real_of_int \<lfloor>height s / 2\<rfloor>"
  proof -
    have "1 \<le> \<lfloor>height s / 2\<rfloor>" using assms(3) by linarith
    then show ?thesis by linarith
  qed
  ultimately show ?thesis
    using assms
    by (auto simp: priceToRow_def buffer_def Let_def split: option.splits if_splits)
qed

lemma priceToRow_whole:
  assumes "priceToRow s p = Some r" "height s \<in> \<int>"
  shows "r \<in> \<int>"
proof -
  have m: "min a b \<in> \<int>" "max a b \<in> \<int>" if "a \<in> \<int>" "b \<in> \<int>" for a b :: real
    using that by (simp_all add: min_def max_def)
  have h: "height s - buffer - 1 \<in> \<int>"
    using assms(2) by (simp add: buffer_def)
  show ?thesis
    using assms(1) h
    by (auto simp: priceToRow_def Let_def buffer_def intro!: m split: option.splits if_splits)
qed

lemma uncolumned_take: "uncolumned (take n cs) = take n (uncolumned cs)"
  by (simp add: uncolumned_def take_map)

lemma addCandle_empty_delegates:
  "candles s = [] \<Longrightarrow> addCandle s candle = addFirstCandle s candle"
  by (simp add: addCandle_def)

subsection \<open>The blank margins\<close>

text \<open>
  The rows within \<open>buffer\<close> of the top of the grid and within \<open>buffer\<close> of its
  bottom hold blank cells only.
\<close>

definition margins_blank :: "DynamicMatrix \<Rightarrow> bool" where
  "margins_blank s = (\<forall>r < length (data s).
      real r < buffer \<or> real (length (data s)) - real r \<le> buffer
      \<longrightarrow> list_all (\<lambda>c. c = Blank) (data s ! r))"

lemma margins_blank_blank:
  "margins_blank (s\<lparr>data := createEmptyMatrix (width s) (height s)\<rparr>)"
  by (simp add: margins_blank_def createEmptyMatrix_eq list_all_iff)

lemma setCell_margins:
  assumes "grid_ok t" "margins_blank t" "buffer \<le> row" "row \<le> height t - buffer - 1"
  shows "margins_blank (after (setCell t row col ch))"
proof (cases "setCell t row col ch = Returned t \<or> setCell t row col ch = TypeError t")
  case True
  then show ?thesis using assms(2) by auto
next
  case False
  then have w: "real_of_int \<lfloor>row\<rfloor> = row" "nat \<lfloor>row\<rfloor> < length (data t)"
    and eq: "after (setCell t row col ch) = t\<lparr>data := (data t)[nat \<lfloor>row\<rfloor> :=
                 assign (data t ! nat \<lfloor>row\<rfloor>) (nat col) ch]\<rparr>"
    by (auto simp: setCell_def split: if_splits)
  have len: "length (data t) = nat \<lceil>height t\<rceil>"
    using assms(1) by (simp add: grid_ok_def)
  have r1: "1 \<le> \<lfloor>row\<rfloor>" using assms(3) by (simp add: buffer_def le_floor_iff)
  have "real_of_int \<lfloor>row\<rfloor> + 2 \<le> height t"
    using w(1) assms(4) unfolding buffer_def by linarith
  then have "\<lfloor>row\<rfloor> + 2 \<le> \<lceil>height t\<rceil>"
    by linarith
  then have r2: "nat \<lfloor>row\<rfloor> + 2 \<le> length (data t)"
    using len r1 by linarith
  show ?thesis
    unfolding eq margins_blank_def
  proof (intro allI impI)
    fix r
    assume r: "r < length (data (t\<lparr>data := (data t)[nat \<lfloor>row\<rfloor> :=
                 assign (data t ! nat \<lfloor>row\<rfloor>) (nat col) ch]\<rparr>))"
      and m: "real r < buffer \<or> real (length (data (t\<lparr>data := (data t)[nat \<lfloor>row\<rfloor> :=
                 assign (data t ! nat \<lfloor>row\<rfloor>) (nat col) ch]\<rparr>))) - real r \<le> buffer"
    have "r \<noteq> nat \<lfloor>row\<rfloor>"
      using m r1 r2 by (auto simp: buffer_def)
    then show "list_all (\<lambda>c. c = Blank) (data (t\<lparr>data := (data t)[nat \<lfloor>row\<rfloor> :=
                 assign (data t ! nat \<lfloor>row\<rfloor>) (nat col) ch]\<rparr>) ! r)"
      using assms(2) r m by (auto simp: margins_blank_def)
  qed
qed

lemma grid_ok_candles_update: "grid_ok (t\<lparr>candles := cs\<rparr>) = grid_ok t"
  by (simp add: grid_ok_def)

lemma margins_blank_candles_update: "margins_blank (t\<lparr>candles := cs\<rparr>) = margins_blank t"
  by (simp add: margins_blank_def)

lemma drawCandle_margins:
  assumes "grid_ok s" "margins_blank s" "candles s \<noteq> []" "3 \<le> height s"
  shows "grid_ok (after (drawCandle s candle)) \<and> margins_blank (after (drawCandle s candle))
    \<and> only_data s (after (drawCandle s candle))"
proof (rule drawCandle_rule [where R = "\<lambda>x. grid_ok (after x) \<and> margins_blank (after x) \<and> only_data s (after x)"])
  show "grid_ok (after (Returned s)) \<and> margins_blank (after (Returned s)) \<and> only_data s (after (Returned s))"
    using assms by (simp add: only_data_refl)
next
  fix t k c ch lo hi p q
  assume R: "grid_ok (after (Returned t)) \<and> margins_blank (after (Returned t)) \<and> only_data s (after (Returned t))"
    and lo: "priceToRow s p = Some lo" and hi: "priceToRow s q = Some hi" and le: "lo + real k \<le> hi"
  have h: "height t = height s" using R only_data_fields by auto
  have "buffer \<le> lo + real k" "lo + real k \<le> height t - buffer - 1"
    using priceToRow_range [OF lo assms(3,4)] priceToRow_range [OF hi assms(3,4)] le h by auto
  then show "grid_ok (after (setCell t (lo + real k) c ch)) \<and> margins_blank (after (setCell t (lo + real k) c ch))
      \<and> only_data s (after (setCell t (lo + real k) c ch))"
    using R setCell_margins setCell_grid_ok only_data_trans [OF _ setCell_only_data] by auto
qed

lemma redrawn_refl: "redrawn s s"
  by (simp add: redrawn_def)

lemma redrawn_trans: "redrawn s t \<Longrightarrow> redrawn t u \<Longrightarrow> redrawn s u"
  by (simp add: redrawn_def)

lemma only_data_redrawn: "only_data s t \<Longrightarrow> redrawn s t"
  using only_data_fields [of s t] by (simp add: redrawn_def)

lemma redrawn_nonempty: "redrawn s t \<Longrightarrow> candles s \<noteq> [] \<Longrightarrow> candles t \<noteq> []"
  using uncolumned_length [of "candles s"] uncolumned_length [of "candles t"]
  by (auto simp: redrawn_def)

lemma redrawAllCandles_margins:
  assumes "3 \<le> height s"
  shows "grid_ok (after (redrawAllCandles s)) \<and> margins_blank (after (redrawAllCandles s))"
proof -
  define b where "b = s\<lparr>data := createEmptyMatrix (width s) (height s)\<rparr>"
  define R where "R = (\<lambda>x. grid_ok (after x) \<and> margins_blank (after x) \<and> redrawn b (after x))"
  have hb: "height b = height s" by (simp add: b_def)
  have "R (redrawLoop 0 3 b)"
  proof (rule redrawLoop_rule [where R = R])
    show "R (Returned b)"
      using grid_ok_blank [of s] margins_blank_blank [of s] by (simp add: R_def b_def redrawn_refl)
  next
    fix t j c assume "R (Returned t)" "j < length (candles t)"
    then show "R (Returned (t\<lparr>candles := (candles t)[j := (candles t ! j)\<lparr>column := c\<rparr>]\<rparr>))"
      by (simp add: R_def grid_ok_candles_update margins_blank_candles_update redrawn_def
          uncolumned_update)
  next
    fix t j assume R: "R (Returned t)" and j: "j < length (candles t)"
    have h: "3 \<le> height t" using R assms hb by (simp add: R_def redrawn_def)
    have ne: "candles t \<noteq> []" using j by auto
    show "R (drawCandle t (candles t ! j))"
      using drawCandle_margins [of t "candles t ! j"] R h ne
      by (auto simp: R_def intro: redrawn_trans only_data_redrawn)
  qed
  then show ?thesis
    by (simp add: R_def redrawAllCandles_def b_def)
qed

subsection \<open>What expansion copies\<close>

lemma copyCols_cells:
  assumes "row < length m" "nat (width s) \<le> length (m ! row)"
  shows "map length (copyCols s row col m) = map length m
    \<and> (\<forall>r x. copyCols s row col m ! r ! x =
          (if r = row \<and> col \<le> x \<and> int x < width s \<and> row < length (data s) \<and> x < length (data s ! row)
           then data s ! row ! x else m ! r ! x))"
  using assms
proof (induction s row col m rule: copyCols.induct)
  case (1 s row col m)
  show ?case
  proof (cases "int col < width s")
    case False
    then show ?thesis by (subst (1 2) copyCols.simps) auto
  next
    case True
    define m1 where "m1 = (if row < length (data s) \<and> col < length (data s ! row)
              then m[row := (m ! row)[col := data s ! row ! col]] else m)"
    have len1: "map length m1 = map length m"
      using "1.prems" by (auto simp: m1_def map_update list_update_same_conv)
    have c: "col < length (m ! row)" using True "1.prems"(2) by linarith
    have cell1: "m1 ! r ! x = (if r = row \<and> x = col \<and> row < length (data s) \<and> col < length (data s ! row)
        then data s ! row ! col else m ! r ! x)" for r x
      using "1.prems"(1) c by (auto simp: m1_def nth_list_update)
    have p1: "row < length m1" "nat (width s) \<le> length (m1 ! row)"
      using "1.prems" by (auto simp: m1_def)
    have IH: "map length (copyCols s row (col + 1) m1) = map length m1
      \<and> (\<forall>r x. copyCols s row (col + 1) m1 ! r ! x =
          (if r = row \<and> col + 1 \<le> x \<and> int x < width s \<and> row < length (data s) \<and> x < length (data s ! row)
           then data s ! row ! x else m1 ! r ! x))"
      using "1.IH" [OF True p1 [unfolded m1_def]] by (simp add: m1_def)
    have unfold: "copyCols s row col m = copyCols s row (col + 1) m1"
      using True by (subst copyCols.simps) (simp add: m1_def)
    show ?thesis
      unfolding unfold using IH len1 cell1 True by auto
  qed
qed


lemma copyRows_cells:
  assumes "nat \<lceil>height s\<rceil> \<le> length m" "list_all (\<lambda>xs. nat (width s) \<le> length xs) m"
  shows "map length (copyRows s row m) = map length m
    \<and> (\<forall>r x. copyRows s row m ! r ! x =
          (if row \<le> r \<and> real r < height s \<and> int x < width s \<and> r < length (data s) \<and> x < length (data s ! r)
           then data s ! r ! x else m ! r ! x))"
  using assms
proof (induction s row m rule: copyRows.induct)
  case (1 s row m)
  show ?case
  proof (cases "real row < height s")
    case False
    then show ?thesis by (subst (1 2) copyRows.simps) auto
  next
    case True
    define m1 where "m1 = copyCols s row 0 m"
    have "int row < \<lceil>height s\<rceil>" using True by linarith
    then have r: "row < length m" using "1.prems"(1) by linarith
    then have w: "nat (width s) \<le> length (m ! row)"
      using "1.prems"(2) by (simp add: list_all_length)
    have m1: "map length m1 = map length m"
      "\<And>r x. m1 ! r ! x = (if r = row \<and> int x < width s \<and> row < length (data s) \<and> x < length (data s ! row)
           then data s ! row ! x else m ! r ! x)"
      using copyCols_cells [OF r w, of 0] by (simp_all add: m1_def)
    have lenm1: "length m1 = length m"
      using m1(1) by (metis length_map)
    have nth1: "length (m1 ! i) = length (m ! i)" if "i < length m" for i
      using m1(1) that lenm1 by (metis nth_map)
    have p1: "nat \<lceil>height s\<rceil> \<le> length m1" "list_all (\<lambda>xs. nat (width s) \<le> length xs) m1"
      using "1.prems" lenm1 nth1 by (auto simp: list_all_length)
    have IH: "map length (copyRows s (row + 1) m1) = map length m1
      \<and> (\<forall>r x. copyRows s (row + 1) m1 ! r ! x =
          (if row + 1 \<le> r \<and> real r < height s \<and> int x < width s \<and> r < length (data s) \<and> x < length (data s ! r)
           then data s ! r ! x else m1 ! r ! x))"
      using "1.IH" [OF True p1 [unfolded m1_def]] by (simp add: m1_def)
    have unfold: "copyRows s row m = copyRows s (row + 1) m1"
      using True by (subst copyRows.simps) (simp add: m1_def)
    have "copyRows s (row + 1) m1 ! r ! x =
          (if row \<le> r \<and> real r < height s \<and> int x < width s \<and> r < length (data s) \<and> x < length (data s ! r)
           then data s ! r ! x else m ! r ! x)" for r x
    proof -
      consider "r < row" | "r = row" | "row + 1 \<le> r" by linarith
      then show ?thesis
      proof cases
        case 1
        then show ?thesis using IH m1(2) by simp
      next
        case 2
        then show ?thesis using IH m1(2) True by simp
      next
        case 3
        then show ?thesis using IH m1(2) by simp
      qed
    qed
    then show ?thesis
      unfolding unfold using IH m1(1) by simp
  qed
qed

lemma expandMatrix_noop:
  "newWidth \<le> width s \<Longrightarrow> newHeight \<le> height s \<Longrightarrow> expandMatrix s newWidth newHeight = s"
  by (simp add: expandMatrix_def)

lemma expandMatrix_grid:
  assumes "grid_ok s"
  shows "grid_ok (expandMatrix s newWidth newHeight)"
    and "r < length (data s) \<Longrightarrow> x < length (data s ! r)
      \<Longrightarrow> r < length (data (expandMatrix s newWidth newHeight))
        \<and> x < length (data (expandMatrix s newWidth newHeight) ! r)
        \<and> data (expandMatrix s newWidth newHeight) ! r ! x = data s ! r ! x"
proof -
  define aw where "aw = max (width s) newWidth"
  define ah where "ah = max (height s) newHeight"
  define m where "m = createEmptyMatrix aw ah"
  have m: "length m = nat \<lceil>ah\<rceil>" "list_all (\<lambda>xs. length xs = nat aw) m"
    by (simp_all add: m_def createEmptyMatrix_eq list_all_iff)
  have "\<lceil>height s\<rceil> \<le> \<lceil>ah\<rceil>" by (simp add: ah_def ceiling_mono)
  then have "nat \<lceil>height s\<rceil> \<le> nat \<lceil>ah\<rceil>" by (rule nat_mono)
  moreover have "nat (width s) \<le> nat aw" by (simp add: aw_def nat_mono)
  ultimately have p: "nat \<lceil>height s\<rceil> \<le> length m"
    "list_all (\<lambda>xs. nat (width s) \<le> length xs) m"
    using m by (auto simp: list_all_iff)
  note c = copyRows_cells [OF p, of 0]
  have len: "length (copyRows s 0 m) = length m"
    using c by (metis length_map)
  have nth: "length (copyRows s 0 m ! i) = length (m ! i)" if "i < length m" for i
    using c that len by (metis nth_map)
  have e: "expandMatrix s newWidth newHeight =
      (if newWidth \<le> width s \<and> newHeight \<le> height s then s
       else s\<lparr>data := copyRows s 0 m, width := aw, height := ah\<rparr>)"
    by (simp add: expandMatrix_def Let_def m_def aw_def ah_def)
  show "grid_ok (expandMatrix s newWidth newHeight)"
    using assms m len nth unfolding e by (auto simp: grid_ok_def list_all_length)
  assume r: "r < length (data s)" and x: "x < length (data s ! r)"
  have rh: "real r < height s" "int x < width s"
    using assms r x by (auto simp: grid_ok_def list_all_length) linarith
  have rm: "r < length m" using r p(1) assms unfolding grid_ok_def by linarith
  have "x < nat (width s)" using rh(2) by linarith
  then have xm: "x < length (m ! r)" using p(2) rm by (auto simp: list_all_length)
  show "r < length (data (expandMatrix s newWidth newHeight))
        \<and> x < length (data (expandMatrix s newWidth newHeight) ! r)
        \<and> data (expandMatrix s newWidth newHeight) ! r ! x = data s ! r ! x"
    unfolding e using r x rh rm xm len nth [OF rm] c by auto
qed

text \<open>
  The cells of the enlarged grid that the old grid did not have are blank.
\<close>

lemma expandMatrix_blank:
  assumes "grid_ok s"
    and "r < length (data (expandMatrix s newWidth newHeight))"
    and "x < length (data (expandMatrix s newWidth newHeight) ! r)"
    and "\<not> (r < length (data s) \<and> x < length (data s ! r))"
  shows "data (expandMatrix s newWidth newHeight) ! r ! x = Blank"
proof (cases "newWidth \<le> width s \<and> newHeight \<le> height s")
  case True
  then have "expandMatrix s newWidth newHeight = s" by (simp add: expandMatrix_def)
  then show ?thesis using assms(2-4) by simp
next
  case False
  define aw where "aw = max (width s) newWidth"
  define ah where "ah = max (height s) newHeight"
  define m where "m = createEmptyMatrix aw ah"
  have m: "length m = nat \<lceil>ah\<rceil>" "list_all (\<lambda>xs. length xs = nat aw) m"
    by (simp_all add: m_def createEmptyMatrix_eq list_all_iff)
  have "\<lceil>height s\<rceil> \<le> \<lceil>ah\<rceil>" by (simp add: ah_def ceiling_mono)
  then have "nat \<lceil>height s\<rceil> \<le> nat \<lceil>ah\<rceil>" by (rule nat_mono)
  moreover have "nat (width s) \<le> nat aw" by (simp add: aw_def nat_mono)
  ultimately have p: "nat \<lceil>height s\<rceil> \<le> length m"
    "list_all (\<lambda>xs. nat (width s) \<le> length xs) m"
    using m by (auto simp: list_all_iff)
  note c = copyRows_cells [OF p, of 0]
  have len: "length (copyRows s 0 m) = length m"
    using c by (metis length_map)
  have nth: "length (copyRows s 0 m ! i) = length (m ! i)" if "i < length m" for i
    using c that len by (metis nth_map)
  have e: "data (expandMatrix s newWidth newHeight) = copyRows s 0 m"
    unfolding expandMatrix_def if_not_P [OF False] by (simp add: Let_def m_def aw_def ah_def)
  have rm: "r < length m" using assms(2) len by (simp add: e)
  then have xm: "x < length (m ! r)" using assms(3) nth by (simp add: e)
  have "m ! r ! x = Blank"
    using rm xm by (simp add: m_def createEmptyMatrix_eq)
  moreover have "copyRows s 0 m ! r ! x = m ! r ! x"
    using c assms(4) by auto
  ultimately show ?thesis by (simp add: e)
qed

subsection \<open>Reachable sessions\<close>

text \<open>
  The sessions a caller can reach: the constructor's, and whatever the two public add
  methods leave behind, also when they throw.
\<close>

inductive reachable :: "DynamicMatrix \<Rightarrow> bool" where
  reachable_init: "reachable init"
| reachable_addFirstCandle: "reachable s \<Longrightarrow> reachable (after (addFirstCandle s candle))"
| reachable_addCandle: "reachable s \<Longrightarrow> reachable (after (addCandle s candle))"

lemma addFirstCandle_margins:
  assumes "3 \<le> height s"
  shows "grid_ok (after (addFirstCandle s candle)) \<and> margins_blank (after (addFirstCandle s candle))"
  unfolding addFirstCandle_def Let_def
  by (rule redrawAllCandles_margins) (use assms in \<open>simp add: expandMatrix_fields le_max_iff_disj\<close>)

lemma addCandle_margins:
  assumes "3 \<le> height s"
  shows "grid_ok (after (addCandle s candle)) \<and> margins_blank (after (addCandle s candle))"
proof (cases "length (candles s) = 0")
  case True
  then show ?thesis using addFirstCandle_margins [OF assms] by (simp add: addCandle_def)
next
  case False
  then have ne: "(length (candles s) = 0) = False" by simp
  show ?thesis
    unfolding addCandle_def Let_def ne if_False
    by (rule redrawAllCandles_margins) (use assms in \<open>simp add: expandMatrix_fields le_max_iff_disj\<close>)
qed

lemma add_grows:
  "width s \<le> width (after (addFirstCandle s candle))"
  "height s \<le> height (after (addFirstCandle s candle))"
  "width s \<le> width (after (addCandle s candle))"
  "height s \<le> height (after (addCandle s candle))"
proof -
  show f: "width s \<le> width (after (addFirstCandle s candle))"
    "height s \<le> height (after (addFirstCandle s candle))"
    by (simp_all add: addFirstCandle_after(4,5))
  show "width s \<le> width (after (addCandle s candle))"
    "height s \<le> height (after (addCandle s candle))"
    using f addCandle_after(4,5) [of s candle]
    by (cases "candles s = []"; simp add: addCandle_empty_delegates)+
qed

lemma reachable_invariant:
  "reachable s \<Longrightarrow> grid_ok s \<and> 7 \<le> height s \<and> 7 \<le> width s"
proof (induction rule: reachable.induct)
  case reachable_init
  show ?case
    by (simp add: init_def grid_ok_def createEmptyMatrix_eq defaultWidth_def defaultHeight_def
        list_all_iff)
next
  case (reachable_addFirstCandle s candle)
  then show ?case
    using addFirstCandle_margins [of s candle] add_grows(1,2) [of s candle] by auto
next
  case (reachable_addCandle s candle)
  then show ?case
    using addCandle_margins [of s candle] add_grows(3,4) [of s candle] by auto
qed


text \<open>A sequence of calls of the two add methods on one session.\<close>

datatype operation = AddFirst Candle | Add Candle

fun perform :: "operation \<Rightarrow> DynamicMatrix \<Rightarrow> DynamicMatrix" where
  "perform (AddFirst candle) s = after (addFirstCandle s candle)"
| "perform (Add candle) s = after (addCandle s candle)"

fun run :: "operation list \<Rightarrow> DynamicMatrix \<Rightarrow> DynamicMatrix" where
  "run [] s = s"
| "run (x # xs) s = run xs (perform x s)"

lemma perform_grows: "width s \<le> width (perform x s) \<and> height s \<le> height (perform x s)"
  by (cases x) (simp_all add: add_grows)

lemma run_grows: "width s \<le> width (run xs s) \<and> height s \<le> height (run xs s)"
proof (induction xs arbitrary: s)
  case Nil
  show ?case by simp
next
  case (Cons x xs)
  show ?case
    using Cons [of "perform x s"] perform_grows [of s x] by auto
qed

lemma run_append: "run (xs @ ys) s = run ys (run xs s)"
  by (induction xs arbitrary: s) simp_all

lemma reachable_run: "reachable s \<Longrightarrow> reachable (run xs s)"
proof (induction xs arbitrary: s)
  case Nil
  then show ?case by simp
next
  case (Cons x xs)
  then show ?case
    by (cases x) (auto intro: reachable.intros)
qed

subsection \<open>The first candle of a new session\<close>

lemma Math_round_mono: "x \<le> y \<Longrightarrow> Math_round x \<le> Math_round y"
  by (simp add: Math_round_def floor_mono)

lemma first_on_init:
  fixes candle
  defines "s \<equiv> after (addFirstCandle init candle)"
  shows "candles s \<noteq> []" "length (candles s) = 1"
    "minPrice s = Some (100 - bodySize candle - lowerWick candle)"
    "maxPrice s = Some (100 + upperWick candle)"
    "width s = 7"
    "height s = max 7 (bodySize candle + upperWick candle + lowerWick candle + 2)"
proof -
  have "length (uncolumned (candles s)) = 1"
    using addFirstCandle_after(1) [of init candle] by (simp add: s_def init_def uncolumned_def)
  then show "length (candles s) = 1" by (simp add: uncolumned_def)
  then show "candles s \<noteq> []" by auto
  show "minPrice s = Some (100 - bodySize candle - lowerWick candle)"
    "maxPrice s = Some (100 + upperWick candle)" "width s = 7"
    "height s = max 7 (bodySize candle + upperWick candle + lowerWick candle + 2)"
    using addFirstCandle_after(2-5) [of init candle]
    by (simp_all add: s_def init_def defaultHeight_def defaultWidth_def buffer_def)
qed

lemma chart1_facts:
  "candles chart1 \<noteq> []" "length (candles chart1) = 1" "minPrice chart1 = Some 95"
  "maxPrice chart1 = Some 101" "width chart1 = 7" "height chart1 = 8"
  using first_on_init [of "\<lparr>type = bearish, bodySize = 3, upperWick = 1, lowerWick = 2\<rparr>"]
  by (simp_all add: chart1_def firstBearish_def)

subsection \<open>When no exception is thrown\<close>

text \<open>
  On a grid whose height is a whole number every mapped row is a whole number, and no
  cell write throws.
\<close>

lemma setCell_returns:
  assumes "grid_ok t" "row \<in> \<int>"
  shows "returns (setCell t row col ch)"
proof (cases "row \<ge> 0 \<and> row < height t \<and> col \<ge> 0 \<and> col < width t")
  case False
  then show ?thesis by (simp add: setCell_def)
next
  case True
  have w: "real_of_int \<lfloor>row\<rfloor> = row"
    using assms(2) by (auto simp: Ints_def)
  have "real_of_int \<lfloor>row\<rfloor> < height t" using True by linarith
  then have "\<lfloor>row\<rfloor> < \<lceil>height t\<rceil>" by linarith
  moreover have "0 \<le> \<lfloor>row\<rfloor>" using True by simp
  ultimately have "nat \<lfloor>row\<rfloor> < length (data t)"
    using assms(1) unfolding grid_ok_def by linarith
  then show ?thesis
    using True w by (simp add: setCell_def)
qed

lemma drawCandle_returns:
  assumes "grid_ok s" "height s \<in> \<int>"
  shows "returns (drawCandle s candle) \<and> grid_ok (after (drawCandle s candle))"
proof -
  have "returns (drawCandle s candle) \<and> grid_ok (after (drawCandle s candle))
      \<and> height (after (drawCandle s candle)) = height s"
  proof (rule drawCandle_rule [where R = "\<lambda>x. returns x \<and> grid_ok (after x) \<and> height (after x) = height s"])
    show "returns (Returned s) \<and> grid_ok (after (Returned s)) \<and> height (after (Returned s)) = height s"
      using assms by simp
  next
    fix t k c ch lo hi p q
    assume R: "returns (Returned t) \<and> grid_ok (after (Returned t)) \<and> height (after (Returned t)) = height s"
      and lo: "priceToRow s p = Some lo"
    have "lo + real k \<in> \<int>"
      using priceToRow_whole [OF lo assms(2)] by simp
    then show "returns (setCell t (lo + real k) c ch) \<and> grid_ok (after (setCell t (lo + real k) c ch))
        \<and> height (after (setCell t (lo + real k) c ch)) = height s"
      using R setCell_returns [of t "lo + real k" c ch] setCell_grid_ok [of t "lo + real k" c ch]
        only_data_fields [OF setCell_only_data, of t "lo + real k" c ch]
      by simp
  qed
  then show ?thesis by simp
qed

lemma redrawAllCandles_returns:
  assumes "height s \<in> \<int>"
  shows "returns (redrawAllCandles s)"
proof -
  define b where "b = s\<lparr>data := createEmptyMatrix (width s) (height s)\<rparr>"
  define R where "R = (\<lambda>x. returns x \<and> grid_ok (after x) \<and> height (after x) = height s)"
  have "R (redrawLoop 0 3 b)"
  proof (rule redrawLoop_rule [where R = R])
    show "R (Returned b)"
      using grid_ok_blank [of s] by (simp add: R_def b_def)
  next
    fix t j c assume "R (Returned t)" "j < length (candles t)"
    then show "R (Returned (t\<lparr>candles := (candles t)[j := (candles t ! j)\<lparr>column := c\<rparr>]\<rparr>))"
      by (simp add: R_def grid_ok_candles_update)
  next
    fix t j assume R: "R (Returned t)" and j: "j < length (candles t)"
    then have "grid_ok t" "height t \<in> \<int>" using assms by (simp_all add: R_def)
    then show "R (drawCandle t (candles t ! j))"
      using drawCandle_returns [of t "candles t ! j"] R
        only_data_fields [OF drawCandle_only_data, of t "candles t ! j"]
      by (simp add: R_def)
  qed
  then show ?thesis
    by (simp add: R_def redrawAllCandles_def b_def)
qed

lemma whole_max: "a \<in> \<int> \<Longrightarrow> b \<in> \<int> \<Longrightarrow> max a b \<in> (\<int> :: real set)"
  by (simp add: max_def)

text \<open>
  \<open>addCandle\<close> rounds the height it asks for up to a whole number, and a grid of whole
  height is redrawn without an exception.
\<close>

lemma addCandle_returns:
  assumes "candles s \<noteq> []" "height s \<in> \<int>"
  shows "returns (addCandle s candle)"
proof -
  have ne: "(length (candles s) = 0) = False" using assms(1) by simp
  have w: "real_of_int n + 2 * buffer \<in> \<int>" for n by (simp add: buffer_def)
  show ?thesis
    unfolding addCandle_def Let_def ne if_False
    by (rule redrawAllCandles_returns)
       (use assms(2) w in \<open>simp add: expandMatrix_fields whole_max\<close>)
qed

text \<open>
  \<open>addFirstCandle\<close> asks for \<open>bodySize + upperWick + lowerWick + 2 * buffer\<close> rows as it
  is; the height stays whole when that number is whole or not above the current height.
\<close>

lemma addFirstCandle_returns:
  assumes "height s \<in> \<int>"
    and "bodySize candle + upperWick candle + lowerWick candle \<in> \<int>
       \<or> bodySize candle + upperWick candle + lowerWick candle + 2 * buffer \<le> height s"
  shows "returns (addFirstCandle s candle)"
proof -
  have "bodySize candle + upperWick candle + lowerWick candle + 2 * buffer \<in> \<int>"
    if "bodySize candle + upperWick candle + lowerWick candle \<in> \<int>"
    using that by (simp add: buffer_def)
  then show ?thesis
    unfolding addFirstCandle_def Let_def
    by (intro redrawAllCandles_returns)
       (use assms in \<open>auto simp: expandMatrix_fields whole_max max_def\<close>)
qed

lemma init_facts:
  "candles init = []" "height init = 7" "width init = 7" "grid_ok init" "height init \<in> \<int>"
  using reachable_invariant [OF reachable_init]
  by (simp_all add: init_def defaultHeight_def defaultWidth_def)

subsection \<open>When an exception is thrown\<close>

lemma setCell_throws:
  assumes "row \<notin> \<int>" "0 \<le> row" "row < height t" "0 \<le> col" "col < width t"
  shows "setCell t row col ch = TypeError t"
proof -
  have "real_of_int \<lfloor>row\<rfloor> \<noteq> row"
    using assms(1) by (metis Ints_of_int)
  then show ?thesis using assms by (simp add: setCell_def)
qed

lemma bodyLoop_throws:
  assumes "row \<le> bodyBottomRow" "row \<notin> \<int>" "0 \<le> row" "row < height s" "0 < col" "col \<le> width s"
  shows "bodyLoop row bodyBottomRow col ch s = TypeError s"
proof -
  have "setCell s row (col - 1) ch = TypeError s"
    using assms by (intro setCell_throws) simp_all
  then show ?thesis
    using assms(1,5) by (subst bodyLoop.simps) simp
qed

lemma upperWickLoop_returns:
  assumes "grid_ok s" "row \<in> \<int>"
  shows "returns (upperWickLoop row bodyTopRow col s)
    \<and> grid_ok (after (upperWickLoop row bodyTopRow col s))
    \<and> only_data s (after (upperWickLoop row bodyTopRow col s))"
proof (rule upperWickLoop_rule [where R = "\<lambda>x. returns x \<and> grid_ok (after x) \<and> only_data s (after x)"])
  show "returns (Returned s) \<and> grid_ok (after (Returned s)) \<and> only_data s (after (Returned s))"
    using assms by (simp add: only_data_refl)
next
  fix t k
  assume R: "returns (Returned t) \<and> grid_ok (after (Returned t)) \<and> only_data s (after (Returned t))"
  have "row + real k \<in> \<int>" using assms(2) by simp
  then show "returns (setCell t (row + real k) col WickBar)
      \<and> grid_ok (after (setCell t (row + real k) col WickBar))
      \<and> only_data s (after (setCell t (row + real k) col WickBar))"
    using R setCell_returns [of t "row + real k"] setCell_grid_ok [of t]
      only_data_trans [OF _ setCell_only_data, of s t] by simp
qed

text \<open>
  A candle whose body top maps to a row that is not a whole number makes \<open>drawCandle\<close>
  throw: the upper wick is drawn, and the first cell write of the body indexes the grid
  with that row.
\<close>

lemma drawCandle_throws:
  assumes "grid_ok s"
    and "priceToRow s (highPrice candle) = Some highRow" "highRow \<in> \<int>"
    and "priceToRow s (openPrice candle) = Some openRow"
    and "priceToRow s (closePrice candle) = Some closeRow"
    and "priceToRow s (lowPrice candle) = Some lowRow"
    and "min openRow closeRow \<notin> \<int>" "0 \<le> min openRow closeRow" "min openRow closeRow < height s"
    and "0 < column candle" "column candle \<le> width s"
  shows "\<not> returns (drawCandle s candle)"
proof -
  define top where "top = min openRow closeRow"
  define bottom where "bottom = max openRow closeRow"
  define ch where "ch = (if type candle = bullish then BullBody else BearBody)"
  obtain s1 where up: "upperWickLoop highRow top (column candle) s = Returned s1"
    and s1: "only_data s s1"
    using upperWickLoop_returns [OF assms(1,3), of top "column candle"]
    by (cases "upperWickLoop highRow top (column candle) s") auto
  have f: "height s1 = height s" "width s1 = width s"
    using only_data_fields [OF s1] by simp_all
  have "bodyLoop top bottom (column candle) ch s1 = TypeError s1"
    using assms(7-11) f by (intro bodyLoop_throws) (simp_all add: top_def bottom_def)
  then have "drawCandle s candle = TypeError s1"
    using up assms(2,4,5,6)
    by (simp add: drawCandle_def Let_def top_def bottom_def ch_def)
  then show ?thesis by simp
qed

lemma redrawAllCandles_throws:
  assumes "candles t \<noteq> []"
    and "\<not> returns (drawCandle
        (t\<lparr>data := createEmptyMatrix (width t) (height t),
           candles := (candles t)[0 := (candles t ! 0)\<lparr>column := 3\<rparr>]\<rparr>)
        ((candles t ! 0)\<lparr>column := 3\<rparr>))"
  shows "\<not> returns (redrawAllCandles t)"
proof -
  define b where "b = t\<lparr>data := createEmptyMatrix (width t) (height t)\<rparr>"
  define candle where "candle = (candles b ! 0)\<lparr>column := 3\<rparr>"
  define s1 where "s1 = b\<lparr>candles := (candles b)[0 := candle]\<rparr>"
  have n: "0 < length (candles b)" using assms(1) by (simp add: b_def)
  have "\<not> returns (drawCandle s1 candle)"
    using assms(2) by (simp add: s1_def candle_def b_def)
  then obtain s2 where "drawCandle s1 candle = TypeError s2"
    by (cases "drawCandle s1 candle") auto
  then have "redrawLoop 0 3 b = TypeError s2"
    using n by (subst redrawLoop.simps) (simp add: Let_def s1_def candle_def)
  then show ?thesis
    by (simp add: redrawAllCandles_def b_def)
qed


text \<open>
  The candle \<open>bodySize = 0, upperWick = 6, lowerWick = 1/2\<close> added first makes the
  height \<open>17/2\<close>. Prices at or below 100 then map to the row \<open>13/2\<close>, and the
  redraw throws at the first candle whose body lies there.
\<close>

lemma addFirstCandle_as_redraw:
  "\<exists>t. addFirstCandle s candle = redrawAllCandles t
     \<and> candles t = candles s @ [\<lparr>type = type candle, bodySize = bodySize candle,
           upperWick = upperWick candle, lowerWick = lowerWick candle, column = 3,
           highPrice = 100 + upperWick candle,
           openPrice = (if type candle = bullish then 100 - bodySize candle else 100),
           closePrice = (if type candle = bullish then 100 else 100 - bodySize candle),
           lowPrice = 100 - bodySize candle - lowerWick candle\<rparr>]
     \<and> minPrice t = Some (100 - bodySize candle - lowerWick candle)
     \<and> maxPrice t = Some (100 + upperWick candle)
     \<and> width t = width s
     \<and> height t = max (height s) (bodySize candle + upperWick candle + lowerWick candle + 2 * buffer)"
  unfolding addFirstCandle_def Let_def
  by (intro exI conjI, rule refl) (simp_all add: expandMatrix_fields)

lemma half_not_whole: "(13 / 2 :: real) \<notin> \<int>"
proof
  assume "(13 / 2 :: real) \<in> \<int>"
  then have "frac (13 / 2 :: real) = 0" by (simp only: frac_eq_0_iff)
  then show False by (simp add: frac_def)
qed

lemma fractional_first_candle_throws:
  assumes "candles s = [] \<or> candles s ! 0 = c0"
    and "highPrice c0 = 101" "openPrice c0 = 100" "closePrice c0 = 97"
    and "height s \<le> 17 / 2" "width s = 7"
  shows "\<not> returns (addFirstCandle s \<lparr>type = bearish, bodySize = 0, upperWick = 6, lowerWick = 1 / 2\<rparr>)"
proof -
  obtain t where t: "addFirstCandle s \<lparr>type = bearish, bodySize = 0, upperWick = 6, lowerWick = 1 / 2\<rparr>
        = redrawAllCandles t"
    and c: "candles t = candles s @ [\<lparr>type = bearish, bodySize = 0, upperWick = 6, lowerWick = 1 / 2,
        column = 3, highPrice = 106, openPrice = 100, closePrice = 100, lowPrice = 199 / 2\<rparr>]"
    and f: "minPrice t = Some (199 / 2)" "maxPrice t = Some 106" "width t = 7" "height t = 17 / 2"
    using addFirstCandle_as_redraw [of s "\<lparr>type = bearish, bodySize = 0, upperWick = 6, lowerWick = 1 / 2\<rparr>"]
      assms(5,6)
    by (auto simp: buffer_def max_def)
  define c1 where "c1 = (candles t ! 0)\<lparr>column := 3\<rparr>"
  define b where "b = t\<lparr>data := createEmptyMatrix (width t) (height t),
           candles := (candles t)[0 := c1]\<rparr>"
  have ne: "candles t \<noteq> []" using c by simp
  have prices: "(highPrice c1 = 101 \<and> openPrice c1 = 100 \<and> closePrice c1 = 97)
      \<or> (highPrice c1 = 106 \<and> openPrice c1 = 100 \<and> closePrice c1 = 100)"
    using assms(1-4) c by (auto simp: c1_def nth_append)
  have g: "grid_ok b"
    using grid_ok_blank [of t] by (simp add: b_def grid_ok_def)
  have bf: "candles b \<noteq> []" "minPrice b = Some (199 / 2)" "maxPrice b = Some 106"
    "height b = 17 / 2" "width b = 7"
    using ne f by (simp_all add: b_def)
  have row: "priceToRow b p = Some (max 1 (min (1 + real_of_int \<lfloor>(106 - p) / (13 / 2) * (13 / 2) + 1 / 2\<rfloor>) (13 / 2)))" for p
    by (simp add: priceToRow_def Let_def buffer_def Math_round_def bf)
  have r100: "priceToRow b 100 = Some (13 / 2)" and r97: "priceToRow b 97 = Some (13 / 2)"
    and r101: "priceToRow b 101 = Some 6" and r106: "priceToRow b 106 = Some 1"
    unfolding row by simp_all
  have col: "column c1 = 3" by (simp add: c1_def)
  obtain lowRow where low: "priceToRow b (lowPrice c1) = Some lowRow"
    unfolding row by blast
  have "\<not> returns (drawCandle b c1)"
    using prices
  proof
    assume p: "highPrice c1 = 101 \<and> openPrice c1 = 100 \<and> closePrice c1 = 97"
    show ?thesis
      by (rule drawCandle_throws [OF g _ _ _ _ low, of 6 "13 / 2" "13 / 2"])
         (simp_all add: p r100 r97 r101 half_not_whole bf col)
  next
    assume p: "highPrice c1 = 106 \<and> openPrice c1 = 100 \<and> closePrice c1 = 100"
    show ?thesis
      by (rule drawCandle_throws [OF g _ _ _ _ low, of 1 "13 / 2" "13 / 2"])
         (simp_all add: p r100 r106 half_not_whole bf col)
  qed
  then have "\<not> returns (redrawAllCandles t)"
    using ne by (intro redrawAllCandles_throws) (simp_all add: b_def c1_def)
  then show ?thesis using t by simp
qed

lemma first_on_init_candle:
  fixes candle
  defines "p \<equiv> candles (after (addFirstCandle init candle)) ! 0"
  shows "type p = type candle"
    "highPrice p = 100 + upperWick candle"
    "openPrice p = (if type candle = bullish then 100 - bodySize candle else 100)"
    "closePrice p = (if type candle = bullish then 100 else 100 - bodySize candle)"
    "lowPrice p = 100 - bodySize candle - lowerWick candle"
proof -
  have u: "uncolumned (candles (after (addFirstCandle init candle))) =
      uncolumned [\<lparr>type = type candle, bodySize = bodySize candle, upperWick = upperWick candle,
        lowerWick = lowerWick candle, column = 0, highPrice = 100 + upperWick candle,
        openPrice = (if type candle = bullish then 100 - bodySize candle else 100),
        closePrice = (if type candle = bullish then 100 else 100 - bodySize candle),
        lowPrice = 100 - bodySize candle - lowerWick candle\<rparr>]"
    using addFirstCandle_after(1) [of init candle] by (simp add: init_facts uncolumned_def)
  show "type p = type candle"
    "highPrice p = 100 + upperWick candle"
    "openPrice p = (if type candle = bullish then 100 - bodySize candle else 100)"
    "closePrice p = (if type candle = bullish then 100 else 100 - bodySize candle)"
    "lowPrice p = 100 - bodySize candle - lowerWick candle"
    using uncolumned_fields(1,5,6,7,8) [OF u, of 0] first_on_init(2) [of candle]
    by (simp_all add: p_def)
qed

lemma chart1_candle:
  "type (candles chart1 ! 0) = bearish" "highPrice (candles chart1 ! 0) = 101"
  "openPrice (candles chart1 ! 0) = 100" "closePrice (candles chart1 ! 0) = 97"
  "lowPrice (candles chart1 ! 0) = 95"
proof -
  have u: "uncolumned (candles chart1) = uncolumned [\<lparr>type = bearish, bodySize = 3, upperWick = 1,
      lowerWick = 2, column = 0, highPrice = 101, openPrice = 100, closePrice = 97, lowPrice = 95\<rparr>]"
    using addFirstCandle_after(1) [of init "\<lparr>type = bearish, bodySize = 3, upperWick = 1, lowerWick = 2\<rparr>"]
    by (simp add: chart1_def firstBearish_def init_facts uncolumned_def)
  show "type (candles chart1 ! 0) = bearish" "highPrice (candles chart1 ! 0) = 101"
    "openPrice (candles chart1 ! 0) = 100" "closePrice (candles chart1 ! 0) = 97"
    "lowPrice (candles chart1 ! 0) = 95"
    using uncolumned_fields(1,5,6,7,8) [OF u, of 0] chart1_facts(2) by simp_all
qed

subsection \<open>What drawing paints\<close>

lemma setCell_cell:
  assumes "grid_ok t" "row \<in> \<int>" "0 \<le> row" "row < height t" "0 \<le> col" "col < width t"
  shows "\<exists>t'. setCell t row col ch = Returned t' \<and> only_data t t' \<and> grid_ok t'
    \<and> (\<forall>r x. data t' ! r ! x = (if real r = row \<and> int x = col then ch else data t ! r ! x))"
proof -
  define r0 where "r0 = nat \<lfloor>row\<rfloor>"
  define x0 where "x0 = nat col"
  have w: "real_of_int \<lfloor>row\<rfloor> = row"
    using assms(2) by (auto simp: Ints_def)
  have r0: "real r0 = row"
    using w assms(3) by (simp add: r0_def)
  have x0: "int x0 = col" using assms(5) by (simp add: x0_def)
  have "real_of_int \<lfloor>row\<rfloor> < height t" using assms(4) by linarith
  then have "\<lfloor>row\<rfloor> < \<lceil>height t\<rceil>" by linarith
  moreover have "0 \<le> \<lfloor>row\<rfloor>" using assms(3) by simp
  ultimately have r0len: "r0 < length (data t)"
    using assms(1) unfolding grid_ok_def r0_def by linarith
  have "length (data t ! r0) = nat (width t)"
    using assms(1) r0len by (simp add: grid_ok_def list_all_length)
  then have x0len: "x0 < length (data t ! r0)"
    using assms(5,6) by (simp add: x0_def)
  define t' where "t' = t\<lparr>data := (data t)[r0 := (data t ! r0)[x0 := ch]]\<rparr>"
  have eq: "setCell t row col ch = Returned t'"
    using assms(3-6) w r0len x0len by (simp add: setCell_def t'_def r0_def x0_def assign_def)
  have cells: "data t' ! r ! x = (if real r = row \<and> int x = col then ch else data t ! r ! x)" for r x
  proof (cases "r = r0")
    case True
    then show ?thesis
      using r0len x0len r0 x0 by (auto simp: t'_def nth_list_update)
  next
    case False
    then have "real r \<noteq> row" using r0 by auto
    then show ?thesis using False by (simp add: t'_def)
  qed
  have "only_data t t'" by (simp add: only_data_def t'_def)
  moreover have "grid_ok t'"
    using setCell_grid_ok [OF assms(1), of row col ch] eq by simp
  ultimately show ?thesis using eq cells by blast
qed

lemma whole_between:
  assumes "row \<in> \<int>" "row \<le> real r" "real r < row + 1"
  shows "real r = row"
proof -
  obtain n where n: "row = real_of_int n" using assms(1) by (auto simp: Ints_def)
  have "n \<le> int r" "int r < n + 1" using assms(2,3) n by linarith+
  then have "int r = n" by linarith
  then show ?thesis using n by simp
qed

text \<open>
  \<open>setCell\<close> for any column: a write outside the canvas is skipped by the guard.
\<close>

lemma setCell_cell_any:
  assumes "grid_ok t" "row \<in> \<int>" "0 \<le> row" "row < height t"
  shows "\<exists>t'. setCell t row col ch = Returned t' \<and> only_data t t' \<and> grid_ok t'
    \<and> (\<forall>r x. data t' ! r ! x =
          (if real r = row \<and> int x = col \<and> int x < width t then ch else data t ! r ! x))"
proof (cases "0 \<le> col \<and> col < width t")
  case True
  obtain t' where t': "setCell t row col ch = Returned t'" "only_data t t'" "grid_ok t'"
    and c: "\<And>r x. data t' ! r ! x = (if real r = row \<and> int x = col then ch else data t ! r ! x)"
    using setCell_cell [OF assms, of col ch] True by blast
  have "data t' ! r ! x =
      (if real r = row \<and> int x = col \<and> int x < width t then ch else data t ! r ! x)" for r x
    using c [of r x] True by auto
  then show ?thesis using t' by blast
next
  case False
  then have e: "setCell t row col ch = Returned t" by (auto simp: setCell_def)
  have "\<not> (int x = col \<and> int x < width t)" for x :: nat
    using False by linarith
  then have "data t ! r ! x =
      (if real r = row \<and> int x = col \<and> int x < width t then ch else data t ! r ! x)" for r x
    by (simp only: if_False simp_thms)
  then show ?thesis
    using e assms(1) only_data_refl [of t] by blast
qed

lemma upperWickLoop_cells:
  assumes "grid_ok s" "row \<in> \<int>" "0 \<le> row" "bodyTopRow \<le> height s"
  shows "\<exists>s'. upperWickLoop row bodyTopRow col s = Returned s' \<and> only_data s s' \<and> grid_ok s'
    \<and> (\<forall>r x. data s' ! r ! x =
          (if int x = col \<and> int x < width s \<and> row \<le> real r \<and> real r < bodyTopRow
           then WickBar else data s ! r ! x))"
  using assms
proof (induction row bodyTopRow col s rule: upperWickLoop.induct)
  case (1 row bodyTopRow col s)
  show ?case
  proof (cases "row < bodyTopRow")
    case False
    then show ?thesis
      by (subst upperWickLoop.simps) (auto simp: only_data_refl "1.prems"(1))
  next
    case True
    have rh: "row < height s" using True "1.prems"(4) by simp
    obtain s1 where s1: "setCell s row col WickBar = Returned s1" "only_data s s1" "grid_ok s1"
      and c1: "\<And>r x. data s1 ! r ! x =
          (if real r = row \<and> int x = col \<and> int x < width s then WickBar else data s ! r ! x)"
      using setCell_cell_any [OF "1.prems"(1,2,3) rh, of col WickBar] by blast
    have f: "height s1 = height s" "width s1 = width s"
      using only_data_fields [OF s1(2)] by simp_all
    obtain s' where s': "upperWickLoop (row + 1) bodyTopRow col s1 = Returned s'"
      "only_data s1 s'" "grid_ok s'"
      and c': "\<And>r x. data s' ! r ! x =
          (if int x = col \<and> int x < width s \<and> row + 1 \<le> real r \<and> real r < bodyTopRow
           then WickBar else data s1 ! r ! x)"
      using "1.IH" [OF True s1(3), of ] "1.prems"(2-4) f by auto
    have "data s' ! r ! x =
          (if int x = col \<and> int x < width s \<and> row \<le> real r \<and> real r < bodyTopRow
           then WickBar else data s ! r ! x)" for r x
    proof (cases "row + 1 \<le> real r")
      case True
      then show ?thesis using c' [of r x] c1 [of r x] by auto
    next
      case False
      then have "row \<le> real r \<longleftrightarrow> real r = row"
        using whole_between [OF "1.prems"(2), of r] by auto
      then show ?thesis using c' [of r x] c1 [of r x] False True by auto
    qed
    moreover have "upperWickLoop row bodyTopRow col s = Returned s'"
      using True s1(1) s'(1) by (subst upperWickLoop.simps) simp
    ultimately show ?thesis
      using s'(3) only_data_trans [OF s1(2) s'(2)] by blast
  qed
qed

lemma lowerWickLoop_cells:
  assumes "grid_ok s" "row \<in> \<int>" "0 \<le> row" "lowRow < height s"
  shows "\<exists>s'. lowerWickLoop row lowRow col s = Returned s' \<and> only_data s s' \<and> grid_ok s'
    \<and> (\<forall>r x. data s' ! r ! x =
          (if int x = col \<and> int x < width s \<and> row \<le> real r \<and> real r \<le> lowRow
           then WickBar else data s ! r ! x))"
  using assms
proof (induction row lowRow col s rule: lowerWickLoop.induct)
  case (1 row lowRow col s)
  show ?case
  proof (cases "row \<le> lowRow")
    case False
    then show ?thesis
      by (subst lowerWickLoop.simps) (auto simp: only_data_refl "1.prems"(1))
  next
    case True
    have rh: "row < height s" using True "1.prems"(4) by simp
    obtain s1 where s1: "setCell s row col WickBar = Returned s1" "only_data s s1" "grid_ok s1"
      and c1: "\<And>r x. data s1 ! r ! x =
          (if real r = row \<and> int x = col \<and> int x < width s then WickBar else data s ! r ! x)"
      using setCell_cell_any [OF "1.prems"(1,2,3) rh, of col WickBar] by blast
    have f: "height s1 = height s" "width s1 = width s"
      using only_data_fields [OF s1(2)] by simp_all
    obtain s' where s': "lowerWickLoop (row + 1) lowRow col s1 = Returned s'"
      "only_data s1 s'" "grid_ok s'"
      and c': "\<And>r x. data s' ! r ! x =
          (if int x = col \<and> int x < width s \<and> row + 1 \<le> real r \<and> real r \<le> lowRow
           then WickBar else data s1 ! r ! x)"
      using "1.IH" [OF True s1(3), of ] "1.prems"(2-4) f by auto
    have "data s' ! r ! x =
          (if int x = col \<and> int x < width s \<and> row \<le> real r \<and> real r \<le> lowRow
           then WickBar else data s ! r ! x)" for r x
    proof (cases "row + 1 \<le> real r")
      case True
      then show ?thesis using c' [of r x] c1 [of r x] by auto
    next
      case False
      then have "row \<le> real r \<longleftrightarrow> real r = row"
        using whole_between [OF "1.prems"(2), of r] by auto
      then show ?thesis using c' [of r x] c1 [of r x] False True by auto
    qed
    moreover have "lowerWickLoop row lowRow col s = Returned s'"
      using True s1(1) s'(1) by (subst lowerWickLoop.simps) simp
    ultimately show ?thesis
      using s'(3) only_data_trans [OF s1(2) s'(2)] by blast
  qed
qed

text \<open>
  One pass of the body loop: up to three writes on one row. Whatever the column, the
  cells written are those of the columns \<open>col - 1\<close>, \<open>col\<close>, \<open>col + 1\<close> that are on the
  canvas: the two tests of the loop and the guard of \<open>setCell\<close> skip the others.
\<close>

lemma body_row_cells:
  assumes "grid_ok s" "row \<in> \<int>" "0 \<le> row" "row < height s"
  shows "\<exists>s3. andThen (if col > 0 then setCell s row (col - 1) ch else Returned s) (\<lambda>s1.
        andThen (setCell s1 row col ch) (\<lambda>s2.
        andThen (if col < width s2 - 1 then setCell s2 row (col + 1) ch else Returned s2) f))
        = f s3
    \<and> only_data s s3 \<and> grid_ok s3
    \<and> (\<forall>r x. data s3 ! r ! x =
          (if real r = row \<and> \<bar>int x - col\<bar> \<le> 1 \<and> int x < width s then ch else data s ! r ! x))"
proof -
  obtain s1 where s1: "(if col > 0 then setCell s row (col - 1) ch else Returned s) = Returned s1"
    "only_data s s1" "grid_ok s1"
    and c1: "\<And>r x. data s1 ! r ! x =
      (if real r = row \<and> int x = col - 1 \<and> int x < width s then ch else data s ! r ! x)"
  proof (cases "col > 0")
    case True
    then show ?thesis
      using setCell_cell_any [OF assms(1-4), of "col - 1" ch] that by auto
  next
    case False
    then have "\<not> (int x = col - 1 \<and> int x < width s)" for x :: nat
      by linarith
    then have e: "data s ! r ! x =
        (if real r = row \<and> int x = col - 1 \<and> int x < width s then ch else data s ! r ! x)" for r x
      by (simp only: if_False simp_thms)
    show ?thesis
      using that [OF _ only_data_refl assms(1) e] False by simp
  qed
  have f1: "height s1 = height s" "width s1 = width s"
    using only_data_fields [OF s1(2)] by simp_all
  have rh1: "row < height s1" using assms(4) f1 by simp
  obtain s2 where s2: "setCell s1 row col ch = Returned s2" "only_data s1 s2" "grid_ok s2"
    and c2: "\<And>r x. data s2 ! r ! x =
      (if real r = row \<and> int x = col \<and> int x < width s then ch else data s1 ! r ! x)"
    using setCell_cell_any [OF s1(3) assms(2,3) rh1, of col ch] f1 by auto
  have f2: "height s2 = height s" "width s2 = width s"
    using only_data_fields [OF s2(2)] f1 by simp_all
  have rh2: "row < height s2" using assms(4) f2 by simp
  obtain s3 where s3: "(if col < width s2 - 1 then setCell s2 row (col + 1) ch else Returned s2) = Returned s3"
    "only_data s2 s3" "grid_ok s3"
    and c3: "\<And>r x. data s3 ! r ! x =
      (if real r = row \<and> int x = col + 1 \<and> int x < width s then ch else data s2 ! r ! x)"
  proof (cases "col < width s2 - 1")
    case True
    then show ?thesis
      using setCell_cell_any [OF s2(3) assms(2,3) rh2, of "col + 1" ch] f2 that by auto
  next
    case False
    then have "\<not> (int x = col + 1 \<and> int x < width s)" for x :: nat
      using f2 by linarith
    then have e: "data s2 ! r ! x =
        (if real r = row \<and> int x = col + 1 \<and> int x < width s then ch else data s2 ! r ! x)" for r x
      by (simp only: if_False simp_thms)
    show ?thesis
      using that [OF _ only_data_refl s2(3) e] False by simp
  qed
  have "data s3 ! r ! x =
          (if real r = row \<and> \<bar>int x - col\<bar> \<le> 1 \<and> int x < width s then ch else data s ! r ! x)" for r x
  proof -
    consider "int x = col - 1" | "int x = col" | "int x = col + 1" | "\<bar>int x - col\<bar> > 1"
      by linarith
    then show ?thesis
      using c1 [of r x] c2 [of r x] c3 [of r x] by cases auto
  qed
  moreover have "only_data s s3"
    using only_data_trans [OF only_data_trans [OF s1(2) s2(2)] s3(2)] .
  ultimately show ?thesis
    using s1(1) s2(1) s3(1,3) by (intro exI [of _ s3]) simp
qed

lemma bodyLoop_cells:
  assumes "grid_ok s" "row \<in> \<int>" "0 \<le> row" "bodyBottomRow < height s"
  shows "\<exists>s'. bodyLoop row bodyBottomRow col ch s = Returned s' \<and> only_data s s' \<and> grid_ok s'
    \<and> (\<forall>r x. data s' ! r ! x =
          (if row \<le> real r \<and> real r \<le> bodyBottomRow \<and> \<bar>int x - col\<bar> \<le> 1 \<and> int x < width s
           then ch else data s ! r ! x))"
  using assms
proof (induction row bodyBottomRow col ch s rule: bodyLoop.induct)
  case (1 row bodyBottomRow col ch s)
  show ?case
  proof (cases "row \<le> bodyBottomRow")
    case False
    then show ?thesis
      by (subst bodyLoop.simps) (auto simp: only_data_refl "1.prems"(1))
  next
    case True
    have rh: "row < height s" using True "1.prems"(4) by simp
    obtain s3 where s3: "andThen (if col > 0 then setCell s row (col - 1) ch else Returned s) (\<lambda>s1.
        andThen (setCell s1 row col ch) (\<lambda>s2.
        andThen (if col < width s2 - 1 then setCell s2 row (col + 1) ch else Returned s2)
          (bodyLoop (row + 1) bodyBottomRow col ch)))
        = bodyLoop (row + 1) bodyBottomRow col ch s3"
      "only_data s s3" "grid_ok s3"
      and c3: "\<And>r x. data s3 ! r ! x =
          (if real r = row \<and> \<bar>int x - col\<bar> \<le> 1 \<and> int x < width s then ch else data s ! r ! x)"
      using body_row_cells [OF "1.prems"(1,2,3) rh,
          of col ch "bodyLoop (row + 1) bodyBottomRow col ch"]
      by blast
    have f: "height s3 = height s" "width s3 = width s"
      using only_data_fields [OF s3(2)] by simp_all
    obtain s' where s': "bodyLoop (row + 1) bodyBottomRow col ch s3 = Returned s'"
      "only_data s3 s'" "grid_ok s'"
      and c': "\<And>r x. data s' ! r ! x =
          (if row + 1 \<le> real r \<and> real r \<le> bodyBottomRow \<and> \<bar>int x - col\<bar> \<le> 1 \<and> int x < width s
           then ch else data s3 ! r ! x)"
      using "1.IH" [OF True s3(3)] "1.prems"(2-4) f by auto
    have "data s' ! r ! x =
          (if row \<le> real r \<and> real r \<le> bodyBottomRow \<and> \<bar>int x - col\<bar> \<le> 1 \<and> int x < width s
           then ch else data s ! r ! x)" for r x
    proof (cases "row + 1 \<le> real r")
      case True
      then show ?thesis using c' [of r x] c3 [of r x] by auto
    next
      case False
      then have "row \<le> real r \<longleftrightarrow> real r = row"
        using whole_between [OF "1.prems"(2), of r] by auto
      then show ?thesis using c' [of r x] c3 [of r x] False True by auto
    qed
    moreover have "bodyLoop row bodyBottomRow col ch s = Returned s'"
      using True s3(1) s'(1) by (subst bodyLoop.simps) simp
    ultimately show ?thesis
      using s'(3) only_data_trans [OF s3(2) s'(2)] by blast
  qed
qed

text \<open>
  The grid that \<open>drawCandle\<close> leaves, cell by cell, when the four mapped rows are whole
  numbers inside the grid. The candle's column is any integer: only cells on the canvas
  are written.
\<close>

lemma drawCandle_cells:
  assumes "grid_ok s"
    and rows: "priceToRow s (highPrice candle) = Some highRow"
      "priceToRow s (openPrice candle) = Some openRow"
      "priceToRow s (closePrice candle) = Some closeRow"
      "priceToRow s (lowPrice candle) = Some lowRow"
    and whole: "highRow \<in> \<int>" "openRow \<in> \<int>" "closeRow \<in> \<int>"
    and range: "0 \<le> highRow" "0 \<le> openRow" "0 \<le> closeRow"
      "openRow < height s" "closeRow < height s" "lowRow < height s"
  shows "\<exists>s'. drawCandle s candle = Returned s' \<and> only_data s s' \<and> grid_ok s'
    \<and> (\<forall>r x. data s' ! r ! x =
          (if int x = column candle \<and> int x < width s
              \<and> max openRow closeRow + 1 \<le> real r \<and> real r \<le> lowRow
           then WickBar
           else if min openRow closeRow \<le> real r \<and> real r \<le> max openRow closeRow
                   \<and> \<bar>int x - column candle\<bar> \<le> 1 \<and> int x < width s
           then (if type candle = bullish then BullBody else BearBody)
           else if int x = column candle \<and> int x < width s
              \<and> highRow \<le> real r \<and> real r < min openRow closeRow
           then WickBar
           else data s ! r ! x))"
proof -
  define top where "top = min openRow closeRow"
  define bottom where "bottom = max openRow closeRow"
  define ch where "ch = (if type candle = bullish then BullBody else BearBody)"
  define col where "col = column candle"
  have tb: "top \<in> \<int>" "bottom \<in> \<int>" "0 \<le> top" "0 \<le> bottom" "top < height s" "bottom < height s"
    using whole range by (auto simp: top_def bottom_def min_def max_def)
  have th: "top \<le> height s" using tb(5) by simp
  obtain s1 where s1: "upperWickLoop highRow top col s = Returned s1" "only_data s s1" "grid_ok s1"
    and c1: "\<And>r x. data s1 ! r ! x =
          (if int x = col \<and> int x < width s \<and> highRow \<le> real r \<and> real r < top
           then WickBar else data s ! r ! x)"
    using upperWickLoop_cells [OF assms(1) whole(1) range(1) th, of col] by blast
  have f1: "height s1 = height s" "width s1 = width s"
    using only_data_fields [OF s1(2)] by simp_all
  have bh1: "bottom < height s1" using tb(6) f1 by simp
  obtain s2 where s2: "bodyLoop top bottom col ch s1 = Returned s2" "only_data s1 s2" "grid_ok s2"
    and c2: "\<And>r x. data s2 ! r ! x =
          (if top \<le> real r \<and> real r \<le> bottom \<and> \<bar>int x - col\<bar> \<le> 1 \<and> int x < width s
           then ch else data s1 ! r ! x)"
    using bodyLoop_cells [OF s1(3) tb(1,3) bh1, of col ch] f1 by auto
  have f2: "height s2 = height s" "width s2 = width s"
    using only_data_fields [OF s2(2)] f1 by simp_all
  have b1: "bottom + 1 \<in> \<int>" "0 \<le> bottom + 1" using tb by simp_all
  have lh2: "lowRow < height s2" using range(6) f2 by simp
  obtain s3 where s3: "lowerWickLoop (bottom + 1) lowRow col s2 = Returned s3" "only_data s2 s3"
      "grid_ok s3"
    and c3: "\<And>r x. data s3 ! r ! x =
          (if int x = col \<and> int x < width s \<and> bottom + 1 \<le> real r \<and> real r \<le> lowRow
           then WickBar else data s2 ! r ! x)"
    using lowerWickLoop_cells [OF s2(3) b1 lh2, of col] f2 by auto
  have eq: "drawCandle s candle = Returned s3"
    using s1(1) s2(1) s3(1)
    by (simp add: drawCandle_def rows Let_def top_def bottom_def ch_def col_def)
  have od: "only_data s s3"
    using only_data_trans [OF only_data_trans [OF s1(2) s2(2)] s3(2)] .
  have "data s3 ! r ! x =
          (if int x = col \<and> int x < width s \<and> bottom + 1 \<le> real r \<and> real r \<le> lowRow then WickBar
           else if top \<le> real r \<and> real r \<le> bottom \<and> \<bar>int x - col\<bar> \<le> 1 \<and> int x < width s then ch
           else if int x = col \<and> int x < width s \<and> highRow \<le> real r \<and> real r < top then WickBar
           else data s ! r ! x)" for r x
    using c1 [of r x] c2 [of r x] c3 [of r x] by simp
  then show ?thesis
    using eq od s3(3) unfolding top_def bottom_def ch_def col_def by blast
qed

text \<open>
  A redraw that returns has put candle \<open>j\<close> in column \<open>3 + 6 * j\<close>; however it ends, it
  leaves the candles before its current index alone.
\<close>

lemma redrawLoop_columns:
  "(\<forall>j < i. candles (after (redrawLoop i currentColumn s)) ! j = candles s ! j)
   \<and> length (candles (after (redrawLoop i currentColumn s))) = length (candles s)
   \<and> (returns (redrawLoop i currentColumn s) \<longrightarrow>
        (\<forall>j. i \<le> j \<and> j < length (candles s) \<longrightarrow>
           column (candles (after (redrawLoop i currentColumn s)) ! j)
             = currentColumn + 6 * int (j - i)))"
proof (induction i currentColumn s rule: redrawLoop.induct)
  case (1 i currentColumn s)
  show ?case
  proof (cases "i < length (candles s)")
    case False
    then show ?thesis by (subst (1 2 3 4) redrawLoop.simps) simp
  next
    case True
    define candle where "candle = (candles s ! i)\<lparr>column := currentColumn\<rparr>"
    define s1 where "s1 = s\<lparr>candles := (candles s)[i := candle]\<rparr>"
    have c1: "candles (after (drawCandle s1 candle)) = (candles s)[i := candle]"
      using drawCandle_candles [of s1 candle] by (simp add: s1_def)
    show ?thesis
    proof (cases "drawCandle s1 candle")
      case (TypeError s2)
      then have "redrawLoop i currentColumn s = TypeError s2"
        using True by (subst redrawLoop.simps) (simp add: candle_def s1_def Let_def)
      moreover have "candles s2 = (candles s)[i := candle]"
        using c1 TypeError by simp
      ultimately show ?thesis by simp
    next
      case (Returned s2)
      then have eq: "redrawLoop i currentColumn s = redrawLoop (i + 1) (currentColumn + 6) s2"
        using True by (subst redrawLoop.simps) (simp add: candle_def s1_def Let_def)
      have c2: "candles s2 = (candles s)[i := candle]"
        using c1 Returned by simp
      note IH = "1.IH" [OF True candle_def s1_def Returned]
      define final where "final = candles (after (redrawLoop (i + 1) (currentColumn + 6) s2))"
      have before: "\<forall>j < i + 1. final ! j = candles s2 ! j"
        and len: "length final = length (candles s2)"
        and cols: "returns (redrawLoop (i + 1) (currentColumn + 6) s2) \<longrightarrow>
          (\<forall>j. i + 1 \<le> j \<and> j < length (candles s2) \<longrightarrow>
             column (final ! j) = currentColumn + 6 + 6 * int (j - (i + 1)))"
        using IH by (simp_all add: final_def)
      have a: "\<forall>j < i. final ! j = candles s ! j"
        using before c2 by simp
      have b: "length final = length (candles s)"
        using len c2 by simp
      have "column (final ! j) = currentColumn + 6 * int (j - i)"
        if r: "returns (redrawLoop (i + 1) (currentColumn + 6) s2)" and j: "i \<le> j" "j < length (candles s)" for j
      proof (cases "j = i")
        case True
        then have "final ! j = candle" using before c2 j by simp
        then show ?thesis using True by (simp add: candle_def)
      next
        case False
        then have "i + 1 \<le> j" using j by simp
        then have "column (final ! j) = currentColumn + 6 + 6 * int (j - (i + 1))"
          using cols r j c2 by simp
        moreover have "int (j - i) = 1 + int (j - (i + 1))" using \<open>i + 1 \<le> j\<close> by simp
        ultimately show ?thesis by simp
      qed
      then show ?thesis
        unfolding eq final_def [symmetric] using a b by blast
    qed
  qed
qed

lemma redrawAllCandles_columns:
  assumes "returns (redrawAllCandles s)" "j < length (candles s)"
  shows "column (candles (after (redrawAllCandles s)) ! j) = 3 + 6 * int j"
  using redrawLoop_columns [of 0 3 "s\<lparr>data := createEmptyMatrix (width s) (height s)\<rparr>"] assms
  by (simp add: redrawAllCandles_def)

lemma drawCandle_off_canvas:
  assumes "width s < column candle"
  shows "drawCandle s candle = Returned s"
proof (rule drawCandle_rule [where R = "\<lambda>x. x = Returned s"])
  show "Returned s = Returned s" by simp
next
  fix t k c ch lo hi p q
  assume "Returned t = Returned s" "c \<in> {column candle - 1, column candle, column candle + 1}"
  then show "setCell t (lo + real k) c ch = Returned s"
    using assms by (auto simp: setCell_def)
qed

lemma nat_interval_card:
  assumes "a \<in> \<int>" "b \<in> \<int>" "0 \<le> a" "a \<le> (b::real)"
  shows "card {r::nat. a \<le> real r \<and> real r \<le> b} = nat \<lfloor>b - a\<rfloor> + 1"
proof -
  obtain m where m: "a = real_of_int m" using assms(1) by (auto simp: Ints_def)
  obtain n where n: "b = real_of_int n" using assms(2) by (auto simp: Ints_def)
  have mn: "0 \<le> m" "m \<le> n" using assms(3,4) m n by simp_all
  have "{r::nat. a \<le> real r \<and> real r \<le> b} = {nat m .. nat n}"
  proof (rule set_eqI)
    fix r :: nat
    have "a \<le> real r \<longleftrightarrow> m \<le> int r" using m by linarith
    moreover have "real r \<le> b \<longleftrightarrow> int r \<le> n" using n by linarith
    ultimately show "r \<in> {r::nat. a \<le> real r \<and> real r \<le> b} \<longleftrightarrow> r \<in> {nat m .. nat n}"
      using mn by auto
  qed
  moreover have "\<lfloor>b - a\<rfloor> = n - m" using m n by simp
  ultimately show ?thesis using mn by simp
qed

text \<open>
  The chart of Test 1 is what drawing its one candle on the cleared grid returns.
\<close>

lemma chart1_draw:
  "returns (firstBearish init 3 1 2)"
  "column (candles chart1 ! 0) = 3"
  "grid_ok chart1"
  "drawCandle (chart1\<lparr>data := createEmptyMatrix (width chart1) (height chart1)\<rparr>)
     (candles chart1 ! 0) = Returned chart1"
proof -
  define c :: Candle where "c = \<lparr>type = bearish, bodySize = 3, upperWick = 1, lowerWick = 2\<rparr>"
  show r: "returns (firstBearish init 3 1 2)"
    unfolding firstBearish_def by (rule addFirstCandle_returns) (simp_all add: init_facts)
  obtain t where t: "addFirstCandle init c = redrawAllCandles t"
    and ct: "candles t = [\<lparr>type = bearish, bodySize = 3, upperWick = 1, lowerWick = 2, column = 3,
        highPrice = 101, openPrice = 100, closePrice = 97, lowPrice = 95\<rparr>]"
    using addFirstCandle_as_redraw [of init c] by (auto simp: c_def init_facts)
  have rt: "returns (redrawAllCandles t)"
    using r t by (simp add: firstBearish_def c_def)
  have ch: "chart1 = after (redrawAllCandles t)"
    using t by (simp add: chart1_def firstBearish_def c_def)
  show "column (candles chart1 ! 0) = 3"
    using redrawAllCandles_columns [OF rt, of 0] ct by (simp add: ch)
  have "reachable chart1"
    unfolding chart1_def firstBearish_def by (intro reachable.intros)
  then show "grid_ok chart1" using reachable_invariant by blast
  define b where "b = t\<lparr>data := createEmptyMatrix (width t) (height t)\<rparr>"
  define candle where "candle = (candles b ! 0)\<lparr>column := 3\<rparr>"
  have cb: "candles b = [candle]" by (simp add: b_def candle_def ct)
  have c3: "candle\<lparr>column := 3\<rparr> = candle" by (simp add: candle_def)
  have b1: "b\<lparr>candles := [candle]\<rparr> = b" using cb by (metis DynamicMatrix.surjective DynamicMatrix.update_convs(6))
  have loop: "redrawLoop 0 3 b = (case drawCandle b candle of
        Returned s2 \<Rightarrow> redrawLoop 1 9 s2 | TypeError s2 \<Rightarrow> TypeError s2)"
    by (subst redrawLoop.simps) (simp add: Let_def cb c3 b1 cong: outcome.case_cong)
  obtain s2 where s2: "drawCandle b candle = Returned s2"
    using rt loop by (cases "drawCandle b candle") (auto simp: redrawAllCandles_def b_def)
  have od: "only_data b s2" using drawCandle_only_data [of b candle] s2 by simp
  then have cs2: "candles s2 = [candle]" using only_data_fields [OF od] cb by simp
  have "redrawLoop 1 9 s2 = Returned s2"
    using cs2 by (subst redrawLoop.simps) simp
  then have e: "chart1 = s2"
    using loop s2 by (simp add: ch redrawAllCandles_def b_def)
  have "s2\<lparr>data := createEmptyMatrix (width s2) (height s2)\<rparr> = b"
    using od only_data_fields [OF od] by (simp add: only_data_def b_def)
  then show "drawCandle (chart1\<lparr>data := createEmptyMatrix (width chart1) (height chart1)\<rparr>)
     (candles chart1 ! 0) = Returned chart1"
    using s2 e cs2 by simp
qed


lemma chart1_rows:
  "priceToRow (chart1\<lparr>data := d\<rparr>) 101 = Some 1" "priceToRow (chart1\<lparr>data := d\<rparr>) 100 = Some 2"
  "priceToRow (chart1\<lparr>data := d\<rparr>) 97 = Some 5" "priceToRow (chart1\<lparr>data := d\<rparr>) 95 = Some 6"
  by (simp_all add: priceToRow_def Let_def buffer_def Math_round_def chart1_facts)

text \<open>The cells of the chart of Test 1.\<close>

lemma chart1_cells:
  assumes "r < 8" "x < 7"
  shows "data chart1 ! r ! x =
     (if x = 3 \<and> r = 6 then WickBar
      else if 2 \<le> r \<and> r \<le> 5 \<and> 2 \<le> x \<and> x \<le> 4 then BearBody
      else if x = 3 \<and> r = 1 then WickBar
      else Blank)"
proof -
  define b where "b = chart1\<lparr>data := createEmptyMatrix (width chart1) (height chart1)\<rparr>"
  define c where "c = candles chart1 ! 0"
  have g: "grid_ok b" unfolding b_def by (rule grid_ok_blank)
  have rows: "priceToRow b (highPrice c) = Some 1" "priceToRow b (openPrice c) = Some 2"
    "priceToRow b (closePrice c) = Some 5" "priceToRow b (lowPrice c) = Some 6"
    by (simp_all add: b_def c_def chart1_candle chart1_rows)
  have hb: "height b = 8" "width b = 7" by (simp_all add: b_def chart1_facts)
  have blank: "data b ! r ! x = Blank"
    using assms by (simp add: b_def createEmptyMatrix_eq chart1_facts)
  have d: "drawCandle b c = Returned chart1"
    unfolding b_def c_def by (rule chart1_draw(4))
  have ty: "type c = bearish" by (simp add: c_def chart1_candle)
  have c3: "column c = 3" by (simp add: c_def chart1_draw(2))
  obtain s' where s': "drawCandle b c = Returned s'"
    and cells: "\<And>r x. data s' ! r ! x =
          (if int x = column c \<and> int x < width b \<and> max 2 5 + 1 \<le> real r \<and> real r \<le> 6
           then WickBar
           else if min 2 5 \<le> real r \<and> real r \<le> max 2 5
                   \<and> \<bar>int x - column c\<bar> \<le> 1 \<and> int x < width b
           then (if type c = bullish then BullBody else BearBody)
           else if int x = column c \<and> int x < width b \<and> 1 \<le> real r \<and> real r < min 2 5
           then WickBar
           else data b ! r ! x)"
    using drawCandle_cells [OF g rows] hb by auto
  have e: "s' = chart1" using s' d by simp
  show ?thesis
    using cells [of r x] assms blank by (auto simp: e c3 hb ty)
qed

subsection \<open>Sessions of candles with sizes that are not negative\<close>

text \<open>
  The sessions built from candles whose three sizes are not negative, as the chart
  methods are meant to be called. As soon as such a session has a candle, its price
  bounds are finite and in order.
\<close>

inductive sized_session :: "DynamicMatrix \<Rightarrow> bool" where
  sized_init: "sized_session init"
| sized_addFirstCandle: "sized_session s \<Longrightarrow> 0 \<le> bodySize candle \<Longrightarrow> 0 \<le> upperWick candle
    \<Longrightarrow> 0 \<le> lowerWick candle \<Longrightarrow> sized_session (after (addFirstCandle s candle))"
| sized_addCandle: "sized_session s \<Longrightarrow> 0 \<le> bodySize candle \<Longrightarrow> 0 \<le> upperWick candle
    \<Longrightarrow> 0 \<le> lowerWick candle \<Longrightarrow> sized_session (after (addCandle s candle))"

lemma sized_session_reachable: "sized_session s \<Longrightarrow> reachable s"
  by (induction rule: sized_session.induct) (auto intro: reachable.intros)

lemma sized_session_bounds:
  "sized_session s \<Longrightarrow> candles s \<noteq> []
    \<Longrightarrow> \<exists>lo hi. minPrice s = Some lo \<and> maxPrice s = Some hi \<and> lo \<le> hi"
proof (induction rule: sized_session.induct)
  case sized_init
  then show ?case by (simp add: init_def)
next
  case (sized_addFirstCandle s candle)
  then show ?case
    using addFirstCandle_after(2,3) [of s candle] by simp
next
  case (sized_addCandle s candle)
  show ?case
  proof (cases "candles s = []")
    case True
    then show ?thesis
      using sized_addCandle addFirstCandle_after(2,3) [of s candle]
      by (simp add: addCandle_empty_delegates)
  next
    case False
    have le: "Math_min m a \<le> Math_max n b" if "a \<le> b" for m n a b
      using that by (auto simp: Math_min_def Math_max_def split: option.splits)
    show ?thesis
      using sized_addCandle(2-4) addCandle_after(2,3) [OF False, of candle]
      by (auto intro!: le)
  qed
qed

text \<open>
  \<open>priceToRow\<close> reads the price bounds, the height and whether a candle is present,
  and nothing else: during a redraw, which changes none of them, it maps a price to the
  row it has in the session that the redraw leaves.
\<close>

lemma priceToRow_reads:
  assumes "candles t = [] \<longleftrightarrow> candles s = []" "minPrice t = minPrice s"
    "maxPrice t = maxPrice s" "height t = height s"
  shows "priceToRow t p = priceToRow s p"
  unfolding priceToRow_def length_0_conv assms ..

text \<open>
  With a candle present, finite bounds in order and room between the two margins,
  \<open>priceToRow\<close> does not increase with the price and stays between the margins.
\<close>

lemma priceToRow_ordered_bounds:
  assumes "candles s \<noteq> []" "minPrice s = Some lo" "maxPrice s = Some hi" "lo \<le> hi"
    and "2 * buffer + 1 \<le> height s"
  shows "\<exists>r1 r2. priceToRow s p1 = Some r1 \<and> priceToRow s p2 = Some r2
    \<and> (p1 \<le> p2 \<longrightarrow> r2 \<le> r1)
    \<and> buffer \<le> r1 \<and> r1 \<le> height s - buffer - 1"
proof -
  have h: "3 \<le> height s" using assms(5) by (simp add: buffer_def)
  have ex: "\<exists>r. priceToRow s p = Some r" for p
    using assms(1-3) by (simp add: priceToRow_def Let_def)
  obtain r1 where r1: "priceToRow s p1 = Some r1"
    using ex by blast
  obtain r2 where r2: "priceToRow s p2 = Some r2"
    using ex by blast
  have mono: "r2 \<le> r1" if le: "p1 \<le> p2"
  proof (cases "hi - lo = 0")
    case True
    then show ?thesis using r1 r2 assms(1-3) by (simp add: priceToRow_def)
  next
    case False
    then have pos: "0 < hi - lo" using assms(4) by simp
    have a: "0 \<le> height s - 2 * buffer" using h by (simp add: buffer_def)
    have "(hi - p2) / (hi - lo) \<le> (hi - p1) / (hi - lo)"
      using le pos by (simp add: divide_right_mono)
    then have "(hi - p2) / (hi - lo) * (height s - 2 * buffer) \<le> (hi - p1) / (hi - lo) * (height s - 2 * buffer)"
      using a by (rule mult_right_mono)
    then have "Math_round ((hi - p2) / (hi - lo) * (height s - 2 * buffer))
        \<le> Math_round ((hi - p1) / (hi - lo) * (height s - 2 * buffer))"
      by (rule Math_round_mono)
    then have "buffer + real_of_int (Math_round ((hi - p2) / (hi - lo) * (height s - 2 * buffer)))
        \<le> buffer + real_of_int (Math_round ((hi - p1) / (hi - lo) * (height s - 2 * buffer)))"
      by simp
    moreover have "r1 = max buffer (min (buffer + real_of_int (Math_round ((hi - p1) / (hi - lo) * (height s - 2 * buffer)))) (height s - buffer - 1))"
      using r1 assms(1-3) False by (simp add: priceToRow_def Let_def)
    moreover have "r2 = max buffer (min (buffer + real_of_int (Math_round ((hi - p2) / (hi - lo) * (height s - 2 * buffer)))) (height s - buffer - 1))"
      using r2 assms(1-3) False by (simp add: priceToRow_def Let_def)
    ultimately show ?thesis by (simp add: min_def max_def)
  qed
  show ?thesis
    using r1 r2 mono priceToRow_range [OF r1 assms(1) h] by blast
qed

section \<open>The claims\<close>

text \<open>
  C1. For a session with at least one candle, \<open>addCandle\<close> appends one candle and leaves
  the earlier ones as they were (but for their columns). Of the last two candles, the
  second opens at the close of the first plus 1 when both are bullish, minus 1 when both
  are bearish, and exactly at the close of the first when their directions differ. The
  witness is the two examples of the specification: 97 after \<open>firstBearish(3, 1, 2)\<close> and
  \<open>addBullish(2, 1, 1)\<close>, and 101 for a bullish candle after a bullish one that closed
  at 100.
\<close>

theorem addCandle_open_equals_previous_close:
  assumes "candles s \<noteq> []"
  shows "let cs = candles (after (addCandle s candle)); n = length (candles s);
             first = cs ! (n - 1); second = cs ! n
         in length cs = n + 1
          \<and> uncolumned (take n cs) = uncolumned (candles s)
          \<and> type second = type candle
          \<and> (type first = bullish \<and> type second = bullish
                \<longrightarrow> openPrice second = closePrice first + 1)
          \<and> (type first = bearish \<and> type second = bearish
                \<longrightarrow> openPrice second = closePrice first - 1)
          \<and> (type first \<noteq> type second \<longrightarrow> openPrice second = closePrice first)"
proof -
  define cs where "cs = candles (after (addCandle s candle))"
  define n where "n = length (candles s)"
  define prev where "prev = last (candles s)"
  define openP where "openP =
      (if type prev = bullish \<and> type candle = bullish then closePrice prev + 1
       else if type prev = bearish \<and> type candle = bearish then closePrice prev - 1
       else closePrice prev)"
  obtain q where u: "uncolumned cs = uncolumned (candles s) @ [q]"
    and q: "type q = type candle" "openPrice q = openP" "q\<lparr>column := 0\<rparr> = q"
    using addCandle_after(1) [OF assms, of candle]
    by (simp add: cs_def prev_def openP_def)
  have len: "length cs = n + 1"
    using u uncolumned_length [of cs] uncolumned_length [of "candles s"] by (simp add: n_def)
  have n: "0 < n" using assms by (simp add: n_def)
  have tk: "uncolumned (take n cs) = uncolumned (candles s)"
    using u by (simp add: uncolumned_take n_def uncolumned_length)
  have u': "uncolumned cs = uncolumned (candles s @ [q])"
    using u q(3) by (simp add: uncolumned_def)
  have second: "type (cs ! n) = type candle" "openPrice (cs ! n) = openP"
    using uncolumned_fields(1,6) [OF u', of n] len q by (simp_all add: n_def)
  have first: "type (cs ! (n - 1)) = type prev" "closePrice (cs ! (n - 1)) = closePrice prev"
    using uncolumned_fields(1,7) [OF u', of "n - 1"] len n assms
    by (simp_all add: n_def nth_append prev_def last_conv_nth)
  have "type prev = bullish \<or> type prev = bearish" "type candle = bullish \<or> type candle = bearish"
    by (cases "type prev"; simp) (cases "type candle"; simp)
  then show ?thesis
    unfolding Let_def cs_def [symmetric] n_def [symmetric]
    using len tk second first by (auto simp: openP_def)
qed

theorem addCandle_open_equals_previous_close_witness:
  "candles chart1 \<noteq> [] \<and> openPrice (candles chart2 ! 1) = 97
   \<and> candles (after (firstBullish init 2 1 1)) \<noteq> []
   \<and> openPrice (candles (after (addBullish (after (firstBullish init 2 1 1)) 1 1 0)) ! 1) = 101"
proof -
  have second: "openPrice (candles (after (addCandle s c)) ! 1)
      = closePrice (candles s ! 0) + (if type (candles s ! 0) = type c
          then (if type c = bullish then 1 else - 1) else 0)"
    if s: "candles s \<noteq> []" "length (candles s) = 1" for s c
  proof -
    define cs where "cs = candles (after (addCandle s c))"
    have T: "length cs = 2 \<and> uncolumned (take 1 cs) = uncolumned (candles s) \<and> type (cs ! 1) = type c
      \<and> (type (cs ! 0) = bullish \<and> type (cs ! 1) = bullish \<longrightarrow> openPrice (cs ! 1) = closePrice (cs ! 0) + 1)
      \<and> (type (cs ! 0) = bearish \<and> type (cs ! 1) = bearish \<longrightarrow> openPrice (cs ! 1) = closePrice (cs ! 0) - 1)
      \<and> (type (cs ! 0) \<noteq> type (cs ! 1) \<longrightarrow> openPrice (cs ! 1) = closePrice (cs ! 0))"
      using addCandle_open_equals_previous_close [OF s(1), of c]
      by (simp add: Let_def s(2) cs_def)
    then have "type (cs ! 0) = type (candles s ! 0)" "closePrice (cs ! 0) = closePrice (candles s ! 0)"
      using uncolumned_fields(1,7) [of "take 1 cs" "candles s" 0] s(2) by simp_all
    moreover have "type c = bullish \<or> type c = bearish" by (cases "type c") simp_all
    ultimately show ?thesis
      using T unfolding cs_def [symmetric] by auto
  qed
  have a: "candles chart1 \<noteq> []" "length (candles chart1) = 1" by (rule chart1_facts)+
  have b: "candles (after (firstBullish init 2 1 1)) \<noteq> []"
    "length (candles (after (firstBullish init 2 1 1))) = 1"
    unfolding firstBullish_def by (rule first_on_init)+
  have "openPrice (candles chart2 ! 1) = 97"
    unfolding chart2_def addBullish_def
    using second [OF a, of "\<lparr>type = bullish, bodySize = 2, upperWick = 1, lowerWick = 1\<rparr>"]
    by (simp add: chart1_candle)
  moreover have "openPrice (candles (after (addBullish (after (firstBullish init 2 1 1)) 1 1 0)) ! 1) = 101"
    unfolding addBullish_def
    using second [OF b, of "\<lparr>type = bullish, bodySize = 1, upperWick = 1, lowerWick = 0\<rparr>"]
    by (simp add: firstBullish_def first_on_init_candle)
  ultimately show ?thesis
    using a(1) b(1) by simp
qed

text \<open>
  C2 as stated fails: with no candle \<open>priceToRow\<close> returns 0, and with
  \<open>maxPrice = minPrice\<close> it returns \<open>\<lfloor>height / 2\<rfloor>\<close>, which is 3 on the default grid;
  \<open>buffer\<close> is 1.
\<close>

theorem priceToRow_degenerate_counterexample:
  "candles init = [] \<and> priceToRow init 100 \<noteq> Some buffer
   \<and> maxPrice (after (firstBearish init 0 0 0)) = minPrice (after (firstBearish init 0 0 0))
   \<and> priceToRow (after (firstBearish init 0 0 0)) 100 \<noteq> Some buffer"
proof -
  have "\<lfloor>7 / 2 :: real\<rfloor> = 3" by simp
  then show ?thesis
    using first_on_init [of "\<lparr>type = bearish, bodySize = 0, upperWick = 0, lowerWick = 0\<rparr>"]
    by (simp add: firstBearish_def priceToRow_def buffer_def init_def)
qed

text \<open>
  C2, amended. \<open>priceToRow\<close> returns 0 for every price when the candle sequence is
  empty, and \<open>\<lfloor>height / 2\<rfloor>\<close> for every price when there are candles and
  \<open>maxPrice\<close> equals \<open>minPrice\<close>.
\<close>

theorem priceToRow_degenerate:
  "(candles s = [] \<longrightarrow> priceToRow s price = Some 0)
   \<and> (candles s \<noteq> [] \<and> maxPrice s = Some m \<and> minPrice s = Some m
        \<longrightarrow> priceToRow s price = Some (real_of_int \<lfloor>height s / 2\<rfloor>))"
  by (simp add: priceToRow_def)

theorem priceToRow_degenerate_witness:
  "candles init = [] \<and> priceToRow init 100 = Some 0
   \<and> candles (after (firstBearish init 0 0 0)) \<noteq> []
   \<and> maxPrice (after (firstBearish init 0 0 0)) = Some 100
   \<and> minPrice (after (firstBearish init 0 0 0)) = Some 100
   \<and> priceToRow (after (firstBearish init 0 0 0)) 100 = Some 3"
proof -
  have e: "candles init = []" by (simp add: init_def)
  have fl: "\<lfloor>7 / 2 :: real\<rfloor> = 3" by simp
  show ?thesis
    using priceToRow_degenerate [of init 100]
      priceToRow_degenerate [of "after (firstBearish init 0 0 0)" 100 100] e fl
      first_on_init [of "\<lparr>type = bearish, bodySize = 0, upperWick = 0, lowerWick = 0\<rparr>"]
    by (simp add: firstBearish_def)
qed

text \<open>
  C3. \<open>priceToRow\<close> reads the price bounds, the height and whether a candle is present
  (\<open>priceToRow_reads\<close>). The program calls it from \<open>drawCandle\<close> only, inside the loop
  of the redraw over the candles, so on sessions that hold a candle. On every such
  session built by the add methods from candles whose sizes are not negative,
  \<open>priceToRow\<close> is non-increasing in the price: for \<open>p1 \<le> p2\<close> the row of \<open>p2\<close> is at
  most the row of \<open>p1\<close>; and for every price the row lies in
  \<open>[buffer, height - buffer - 1]\<close>.
\<close>

theorem priceToRow_monotone_in_range:
  assumes "sized_session s" "candles s \<noteq> []"
  shows "\<exists>r1 r2. priceToRow s p1 = Some r1 \<and> priceToRow s p2 = Some r2
    \<and> (p1 \<le> p2 \<longrightarrow> r2 \<le> r1)
    \<and> buffer \<le> r1 \<and> r1 \<le> height s - buffer - 1
    \<and> buffer \<le> r2 \<and> r2 \<le> height s - buffer - 1"
proof -
  obtain lo hi where b: "minPrice s = Some lo" "maxPrice s = Some hi" "lo \<le> hi"
    using sized_session_bounds [OF assms] by blast
  have "7 \<le> height s"
    using reachable_invariant [OF sized_session_reachable [OF assms(1)]] by simp
  then have h: "2 * buffer + 1 \<le> height s" by (simp add: buffer_def)
  obtain r1 r2 where r: "priceToRow s p1 = Some r1" "priceToRow s p2 = Some r2"
    "p1 \<le> p2 \<longrightarrow> r2 \<le> r1" "buffer \<le> r1" "r1 \<le> height s - buffer - 1"
    using priceToRow_ordered_bounds [OF assms(2) b h, of p1 p2] by blast
  obtain r2' where r': "priceToRow s p2 = Some r2'"
    "buffer \<le> r2'" "r2' \<le> height s - buffer - 1"
    using priceToRow_ordered_bounds [OF assms(2) b h, of p2 p2] by blast
  then have "buffer \<le> r2" "r2 \<le> height s - buffer - 1"
    using r(2) by simp_all
  then show ?thesis using r by blast
qed

theorem priceToRow_monotone_in_range_witness:
  "sized_session chart1 \<and> candles chart1 \<noteq> []
   \<and> priceToRow chart1 97 = Some 5 \<and> priceToRow chart1 100 = Some 2
   \<and> (97::real) \<le> 100 \<and> (2::real) \<le> 5
   \<and> buffer \<le> 5 \<and> 5 \<le> height chart1 - buffer - 1
   \<and> buffer \<le> 2 \<and> 2 \<le> height chart1 - buffer - 1"
proof -
  have s: "sized_session chart1"
    unfolding chart1_def firstBearish_def
    by (rule sized_addFirstCandle [OF sized_init]) simp_all
  have rows: "priceToRow chart1 97 = Some 5" "priceToRow chart1 100 = Some 2"
    using chart1_rows(3,2) [of "data chart1"] by simp_all
  show ?thesis
    using priceToRow_monotone_in_range [OF s chart1_facts(1), of 97 100] s chart1_facts(1) rows
    by simp
qed

text \<open>
  C4. \<open>width\<close> and \<open>height\<close> do not decrease over a call of either add method, nor
  over any sequence of such calls, nor from any point of such a sequence to a later
  one. \<open>expandMatrix\<close> changes nothing when both requested
  extents are at most the current ones. In every case the grid it leaves has the larger
  of the current and the requested extent on each axis, with a row for every whole
  number below the height and a cell for every column below the width; each existing
  cell is found at the same row and column of that grid, every other cell is blank, and
  the candles and the price bounds are as before. The session is any whose grid matches
  its extents: every reachable session does (\<open>reachable_invariant\<close>), and so do the
  states on which the add methods call \<open>expandMatrix\<close>, which differ from one in the
  price bounds only.
\<close>

theorem monotonic_growth:
  fixes s newWidth newHeight
  defines "e \<equiv> expandMatrix s newWidth newHeight"
  assumes "grid_ok s"
  shows "width s \<le> width (run xs s) \<and> height s \<le> height (run xs s)
    \<and> width (run xs s) \<le> width (run (xs @ ys) s)
    \<and> height (run xs s) \<le> height (run (xs @ ys) s)
    \<and> width s \<le> width (after (addFirstCandle s candle))
    \<and> height s \<le> height (after (addFirstCandle s candle))
    \<and> width s \<le> width (after (addCandle s candle))
    \<and> height s \<le> height (after (addCandle s candle))
    \<and> (newWidth \<le> width s \<and> newHeight \<le> height s \<longrightarrow> e = s)
    \<and> width e = max (width s) newWidth \<and> height e = max (height s) newHeight
    \<and> length (data e) = nat \<lceil>max (height s) newHeight\<rceil>
    \<and> (\<forall>r < length (data e). length (data e ! r) = nat (max (width s) newWidth))
    \<and> (\<forall>r x. r < length (data s) \<and> x < length (data s ! r) \<longrightarrow>
          r < length (data e) \<and> x < length (data e ! r) \<and> data e ! r ! x = data s ! r ! x)
    \<and> (\<forall>r x. r < length (data e) \<and> x < length (data e ! r)
            \<and> \<not> (r < length (data s) \<and> x < length (data s ! r)) \<longrightarrow>
          data e ! r ! x = Blank)
    \<and> candles e = candles s \<and> minPrice e = minPrice s \<and> maxPrice e = maxPrice s"
proof -
  have f: "width e = max (width s) newWidth" "height e = max (height s) newHeight"
    "candles e = candles s" "minPrice e = minPrice s" "maxPrice e = maxPrice s"
    using expandMatrix_fields [of s newWidth newHeight] by (simp_all add: e_def)
  have g: "grid_ok e"
    unfolding e_def using assms(2) by (rule expandMatrix_grid(1))
  have len: "length (data e) = nat \<lceil>max (height s) newHeight\<rceil>"
    using g f by (simp add: grid_ok_def)
  have row: "\<forall>r < length (data e). length (data e ! r) = nat (max (width s) newWidth)"
    using g f by (simp add: grid_ok_def list_all_length)
  have keep: "\<forall>r x. r < length (data s) \<and> x < length (data s ! r) \<longrightarrow>
          r < length (data e) \<and> x < length (data e ! r) \<and> data e ! r ! x = data s ! r ! x"
    unfolding e_def using expandMatrix_grid(2) [OF assms(2), of _ _ newWidth newHeight] by blast
  have new: "\<forall>r x. r < length (data e) \<and> x < length (data e ! r)
            \<and> \<not> (r < length (data s) \<and> x < length (data s ! r)) \<longrightarrow>
          data e ! r ! x = Blank"
    unfolding e_def using expandMatrix_blank [OF assms(2), of _ newWidth newHeight] by blast
  have noop: "newWidth \<le> width s \<and> newHeight \<le> height s \<longrightarrow> e = s"
    unfolding e_def using expandMatrix_noop [of newWidth s newHeight] by blast
  have later: "width (run xs s) \<le> width (run (xs @ ys) s)"
    "height (run xs s) \<le> height (run (xs @ ys) s)"
    using run_grows [of "run xs s" ys] by (simp_all add: run_append)
  show ?thesis
    using run_grows [of s xs] later add_grows [of s candle] noop f len row keep new
    by blast
qed

theorem monotonic_growth_witness:
  "grid_ok chart1 \<and> width chart1 = 7 \<and> height chart1 = 8
   \<and> width chart1 \<le> width (run [Add \<lparr>type = bullish, bodySize = 2, upperWick = 1, lowerWick = 1\<rparr>] chart1)
   \<and> height chart1 \<le> height (run [Add \<lparr>type = bullish, bodySize = 2, upperWick = 1, lowerWick = 1\<rparr>] chart1)
   \<and> width (run [Add \<lparr>type = bullish, bodySize = 2, upperWick = 1, lowerWick = 1\<rparr>] chart1)
       \<le> width (run [Add \<lparr>type = bullish, bodySize = 2, upperWick = 1, lowerWick = 1\<rparr>,
                       Add \<lparr>type = bearish, bodySize = 4, upperWick = 0, lowerWick = 3\<rparr>] chart1)
   \<and> height (run [Add \<lparr>type = bullish, bodySize = 2, upperWick = 1, lowerWick = 1\<rparr>] chart1)
       \<le> height (run [Add \<lparr>type = bullish, bodySize = 2, upperWick = 1, lowerWick = 1\<rparr>,
                        Add \<lparr>type = bearish, bodySize = 4, upperWick = 0, lowerWick = 3\<rparr>] chart1)
   \<and> expandMatrix chart1 7 8 = chart1
   \<and> width (expandMatrix chart1 15 9) = 15 \<and> height (expandMatrix chart1 15 9) = 9
   \<and> length (data (expandMatrix chart1 15 9)) = 9
   \<and> length (data (expandMatrix chart1 15 9) ! 2) = 15
   \<and> data chart1 ! 2 ! 3 = BearBody \<and> data (expandMatrix chart1 15 9) ! 2 ! 3 = BearBody
   \<and> data chart1 ! 6 ! 3 = WickBar \<and> data (expandMatrix chart1 15 9) ! 6 ! 3 = WickBar
   \<and> data chart1 ! 1 ! 2 = Blank \<and> data (expandMatrix chart1 15 9) ! 1 ! 2 = Blank
   \<and> data (expandMatrix chart1 15 9) ! 2 ! 10 = Blank
   \<and> data (expandMatrix chart1 15 9) ! 8 ! 3 = Blank"
proof -
  define e where "e = expandMatrix chart1 15 9"
  define a :: Candle where "a = \<lparr>type = bullish, bodySize = 2, upperWick = 1, lowerWick = 1\<rparr>"
  define b :: Candle where "b = \<lparr>type = bearish, bodySize = 4, upperWick = 0, lowerWick = 3\<rparr>"
  note g = chart1_draw(3)
  have d: "length (data chart1) = 8" "\<And>r. r < 8 \<Longrightarrow> length (data chart1 ! r) = 7"
    using g by (simp_all add: grid_ok_def chart1_facts list_all_length)
  note T = monotonic_growth [OF g, where xs = "[Add a]" and ys = "[Add b]"
      and newWidth = 7 and newHeight = 8]
  note U = monotonic_growth [OF g, where newWidth = 15 and newHeight = 9, folded e_def]
  have grow: "width chart1 \<le> width (run [Add a] chart1)"
    "height chart1 \<le> height (run [Add a] chart1)"
    "width (run [Add a] chart1) \<le> width (run ([Add a] @ [Add b]) chart1)"
    "height (run [Add a] chart1) \<le> height (run ([Add a] @ [Add b]) chart1)"
    using T by blast+
  have noop: "expandMatrix chart1 7 8 = chart1"
    using T by (simp add: chart1_facts)
  have ext: "width e = 15" "height e = 9" "length (data e) = 9"
    using U by (simp_all add: chart1_facts)
  have rowlen: "length (data e ! r) = 15" if "r < 9" for r
    using U that ext(3) by (simp add: chart1_facts)
  have keep: "data e ! r ! x = data chart1 ! r ! x" if "r < 8" "x < 7" for r x
    using U that d by simp
  have new: "data e ! r ! x = Blank" if "r < 9" "x < 15" "\<not> (r < 8 \<and> x < 7)" for r x
  proof -
    have "r < length (data e) \<and> x < length (data e ! r)
        \<and> \<not> (r < length (data chart1) \<and> x < length (data chart1 ! r))"
      using that ext(3) rowlen [OF that(1)] d by auto
    then show ?thesis using U by blast
  qed
  have cells: "data chart1 ! 2 ! 3 = BearBody" "data chart1 ! 6 ! 3 = WickBar"
    "data chart1 ! 1 ! 2 = Blank"
    by (simp_all add: chart1_cells)
  have app: "[Add a] @ [Add b] = [Add a, Add b]" by simp
  show ?thesis
    unfolding e_def [symmetric] a_def [symmetric] b_def [symmetric]
    using g chart1_facts(5,6) grow [unfolded app] noop ext rowlen [of 2] keep [of 2 3] keep [of 6 3]
      keep [of 1 2] new [of 2 10] new [of 8 3] cells
    by simp
qed

text \<open>
  C5. A candle added first to an empty session is anchored at the baseline 100: its high
  price is \<open>100 + upperWick\<close>, its low price \<open>100 - bodySize - lowerWick\<close>; a bullish
  candle opens at \<open>100 - bodySize\<close> and closes at 100, a bearish one opens at 100 and
  closes at \<open>100 - bodySize\<close>; afterwards \<open>minPrice\<close> is its low price and \<open>maxPrice\<close>
  its high price. This is the state the call leaves, whether or not the redraw that ends
  it throws.
\<close>

theorem addFirstCandle_baseline_prices:
  assumes "candles s = []"
  shows "\<exists>p. candles (after (addFirstCandle s candle)) = [p]
    \<and> type p = type candle
    \<and> highPrice p = 100 + upperWick candle
    \<and> lowPrice p = 100 - bodySize candle - lowerWick candle
    \<and> (type candle = bullish \<longrightarrow> openPrice p = 100 - bodySize candle \<and> closePrice p = 100)
    \<and> (type candle = bearish \<longrightarrow> openPrice p = 100 \<and> closePrice p = 100 - bodySize candle)
    \<and> minPrice (after (addFirstCandle s candle)) = Some (lowPrice p)
    \<and> maxPrice (after (addFirstCandle s candle)) = Some (highPrice p)"
proof -
  define s' where "s' = after (addFirstCandle s candle)"
  define q where "q = \<lparr>type = type candle, bodySize = bodySize candle, upperWick = upperWick candle,
        lowerWick = lowerWick candle, column = 0, highPrice = 100 + upperWick candle,
        openPrice = (if type candle = bullish then 100 - bodySize candle else 100),
        closePrice = (if type candle = bullish then 100 else 100 - bodySize candle),
        lowPrice = 100 - bodySize candle - lowerWick candle\<rparr>"
  have u: "uncolumned (candles s') = uncolumned [q]"
    using addFirstCandle_after(1) [of s candle] assms
    by (simp add: s'_def q_def uncolumned_def)
  then have "length (candles s') = 1"
    using uncolumned_length [of "candles s'"] by (simp add: uncolumned_def)
  then obtain p where p: "candles s' = [p]"
    by (cases "candles s'") auto
  have f: "type p = type q" "highPrice p = highPrice q" "lowPrice p = lowPrice q"
    "openPrice p = openPrice q" "closePrice p = closePrice q"
    using uncolumned_fields [OF u, of 0] p by simp_all
  show ?thesis
    using p f addFirstCandle_after(2,3) [of s candle]
    unfolding s'_def [symmetric] by (intro exI [of _ p]) (auto simp: q_def)
qed

theorem addFirstCandle_baseline_prices_witness:
  "candles init = [] \<and>
   (\<exists>p. candles (after (addFirstCandle init
            \<lparr>type = bullish, bodySize = 2, upperWick = 1, lowerWick = 1\<rparr>)) = [p]
      \<and> highPrice p = 101 \<and> lowPrice p = 97 \<and> openPrice p = 98 \<and> closePrice p = 100
      \<and> minPrice (after (addFirstCandle init
            \<lparr>type = bullish, bodySize = 2, upperWick = 1, lowerWick = 1\<rparr>)) = Some 97
      \<and> maxPrice (after (addFirstCandle init
            \<lparr>type = bullish, bodySize = 2, upperWick = 1, lowerWick = 1\<rparr>)) = Some 101)"
proof -
  have e: "candles init = []" by (simp add: init_def)
  show ?thesis
    using addFirstCandle_baseline_prices [OF e,
        of "\<lparr>type = bullish, bodySize = 2, upperWick = 1, lowerWick = 1\<rparr>"] e
    by auto
qed

text \<open>
  C6. On a new session \<open>firstBearish(3, 1, 2)\<close> returns and leaves one bearish candle
  with high price 101, open price 100, close price 97 and low price 95; the height grows
  from the default 7 to 8 and the grid has 8 rows. \<open>addBearish(3, 1, 2)\<close> does the same.
\<close>

theorem single_bearish_candle_example:
  "returns (firstBearish init 3 1 2)
   \<and> (\<exists>p. candles chart1 = [p] \<and> type p = bearish
         \<and> highPrice p = 101 \<and> openPrice p = 100 \<and> closePrice p = 97 \<and> lowPrice p = 95)
   \<and> height init = 7 \<and> height chart1 = 8 \<and> length (data chart1) = 8
   \<and> addBearish init 3 1 2 = firstBearish init 3 1 2"
proof -
  define c :: Candle where "c = \<lparr>type = bearish, bodySize = 3, upperWick = 1, lowerWick = 2\<rparr>"
  have r: "returns (firstBearish init 3 1 2)"
    unfolding firstBearish_def by (rule addFirstCandle_returns) (simp_all add: init_facts)
  have u: "uncolumned (candles chart1) = uncolumned [\<lparr>type = bearish, bodySize = 3, upperWick = 1,
      lowerWick = 2, column = 0, highPrice = 101, openPrice = 100, closePrice = 97, lowPrice = 95\<rparr>]"
    using addFirstCandle_after(1) [of init c]
    by (simp add: chart1_def firstBearish_def c_def init_facts uncolumned_def)
  obtain p where p: "candles chart1 = [p]"
    using chart1_facts(2) by (cases "candles chart1") auto
  have f: "type p = bearish" "highPrice p = 101" "openPrice p = 100" "closePrice p = 97"
    "lowPrice p = 95"
    using uncolumned_fields(1,5,6,7,8) [OF u, of 0] p by simp_all
  have "reachable chart1"
    unfolding chart1_def firstBearish_def by (intro reachable.intros)
  then have "grid_ok chart1" using reachable_invariant by blast
  then have len: "length (data chart1) = 8"
    by (simp add: grid_ok_def chart1_facts)
  have d: "addBearish init 3 1 2 = firstBearish init 3 1 2"
    by (simp add: addBearish_def firstBearish_def addCandle_empty_delegates init_facts)
  show ?thesis
    using r p f len d chart1_facts(6) init_facts(2) by simp
qed

text \<open>
  C7 as stated fails. After \<open>firstBearish(3, 1, 2)\<close> twice the second candle is in
  column 9 of a grid 7 wide: its open and close map to the rows 2 and 5, and drawing it
  on the cleared grid leaves the grid blank. And after \<open>firstBearish(0, 6, 0.5)\<close> on a
  new chart the body rows are \<open>13/2\<close>: the redraw throws before a body row is painted.
\<close>

theorem drawCandle_paints_counterexample:
  "let s = after (firstBearish chart1 3 1 2);
       c = candles s ! 1;
       blank = s\<lparr>data := createEmptyMatrix (width s) (height s)\<rparr>
   in returns (firstBearish chart1 3 1 2) \<and> length (candles s) = 2
      \<and> width s = 7 \<and> column c = 9
      \<and> priceToRow blank (openPrice c) = Some 2 \<and> priceToRow blank (closePrice c) = Some 5
      \<and> drawCandle blank c = Returned blank
      \<and> \<not> returns (firstBearish init 0 6 (1 / 2))"
proof -
  define cd :: Candle where "cd = \<lparr>type = bearish, bodySize = 3, upperWick = 1, lowerWick = 2\<rparr>"
  define s where "s = after (firstBearish chart1 3 1 2)"
  define c where "c = candles s ! 1"
  define blank where "blank = s\<lparr>data := createEmptyMatrix (width s) (height s)\<rparr>"
  have r: "returns (firstBearish chart1 3 1 2)"
    unfolding firstBearish_def by (rule addFirstCandle_returns) (simp_all add: chart1_facts)
  obtain t where t: "addFirstCandle chart1 cd = redrawAllCandles t"
    and ct: "candles t = candles chart1 @ [\<lparr>type = bearish, bodySize = 3, upperWick = 1, lowerWick = 2,
        column = 3, highPrice = 101, openPrice = 100, closePrice = 97, lowPrice = 95\<rparr>]"
    and ft: "minPrice t = Some 95" "maxPrice t = Some 101" "width t = 7" "height t = 8"
    using addFirstCandle_as_redraw [of chart1 cd] by (auto simp: cd_def chart1_facts buffer_def)
  have st: "s = after (redrawAllCandles t)"
    using t by (simp add: s_def firstBearish_def cd_def)
  have rt: "returns (redrawAllCandles t)"
    using r t by (simp add: firstBearish_def cd_def)
  have lt: "length (candles t) = 2" by (simp add: ct chart1_facts)
  have rd: "redrawn t s" unfolding st by (rule redrawAllCandles_redrawn)
  then have fs: "minPrice s = Some 95" "maxPrice s = Some 101" "width s = 7" "height s = 8"
    and u: "uncolumned (candles s) = uncolumned (candles t)"
    using ft by (simp_all add: redrawn_def)
  have ls: "length (candles s) = 2"
    using u uncolumned_length [of "candles s"] uncolumned_length [of "candles t"] lt by simp
  have pc: "openPrice c = 100" "closePrice c = 97"
    using uncolumned_fields(6,7) [OF u, of 1] ls by (simp_all add: c_def ct chart1_facts nth_append)
  have cc: "column c = 9"
    using redrawAllCandles_columns [OF rt, of 1] lt by (simp add: c_def st)
  have ne: "candles blank \<noteq> []" using ls by (auto simp: blank_def)
  have rows: "priceToRow blank 100 = Some 2" "priceToRow blank 97 = Some 5"
    using ne by (simp_all add: priceToRow_def Let_def buffer_def Math_round_def blank_def fs)
  have off: "drawCandle blank c = Returned blank"
    by (rule drawCandle_off_canvas) (simp add: blank_def fs cc)
  have fr: "\<not> returns (firstBearish init 0 6 (1 / 2))"
    unfolding firstBearish_def
    by (rule fractional_first_candle_throws [of _ "candles chart1 ! 0"])
       (simp_all add: init_facts chart1_candle)
  show ?thesis
    unfolding Let_def s_def [symmetric] c_def [symmetric] blank_def [symmetric]
    using r ls fs(3) cc rows pc off fr by simp
qed

text \<open>
  C7, amended. On a grid of whole height, at least \<open>2 * buffer + 1\<close>, with candles
  present, a candle is drawn without an exception, whatever its column, and the grid
  that results is, cell by cell: the wick glyph in the candle's column, if that column
  is on the canvas, on the rows below the body bottom row down to \<open>lowRow\<close>; the body
  glyph on the rows from the body top row to the body bottom row, in those of the
  columns \<open>column - 1\<close>, \<open>column\<close>, \<open>column + 1\<close> that are on the canvas; the wick glyph
  in the candle's column, if it is on the canvas, on the rows from \<open>highRow\<close> up to, not
  including, the body top row; every other cell as before. Each of the three columns
  that is on the canvas and held no body glyph before holds one on exactly
  \<open>\<bar>closeRow - openRow\<bar> + 1\<close> rows afterwards. A candle in the column \<open>width\<close> of a
  canvas that has a column still has its body painted in the last column, \<open>width - 1\<close>;
  a candle in a column beyond \<open>width\<close> leaves the grid as it was.
\<close>

theorem drawCandle_paints:
  assumes "grid_ok s" "candles s \<noteq> []" "height s \<in> \<int>" "2 * buffer + 1 \<le> height s"
    and rows: "priceToRow s (highPrice candle) = Some highRow"
      "priceToRow s (openPrice candle) = Some openRow"
      "priceToRow s (closePrice candle) = Some closeRow"
      "priceToRow s (lowPrice candle) = Some lowRow"
  shows "\<exists>s'. drawCandle s candle = Returned s'
    \<and> (\<forall>r x. data s' ! r ! x =
          (if int x = column candle \<and> int x < width s
              \<and> max openRow closeRow + 1 \<le> real r \<and> real r \<le> lowRow
           then WickBar
           else if min openRow closeRow \<le> real r \<and> real r \<le> max openRow closeRow
                   \<and> \<bar>int x - column candle\<bar> \<le> 1 \<and> int x < width s
           then (if type candle = bullish then BullBody else BearBody)
           else if int x = column candle \<and> int x < width s
              \<and> highRow \<le> real r \<and> real r < min openRow closeRow
           then WickBar
           else data s ! r ! x))
    \<and> (\<forall>x. \<bar>int x - column candle\<bar> \<le> 1 \<and> int x < width s
            \<and> (\<forall>r < length (data s). data s ! r ! x \<notin> {BullBody, BearBody})
        \<longrightarrow> real (card {r. r < length (data s') \<and> data s' ! r ! x \<in> {BullBody, BearBody}})
            = \<bar>closeRow - openRow\<bar> + 1)
    \<and> (column candle = width s \<and> 0 < width s \<longrightarrow>
          (\<forall>r. min openRow closeRow \<le> real r \<and> real r \<le> max openRow closeRow \<longrightarrow>
             data s' ! r ! nat (width s - 1) = (if type candle = bullish then BullBody else BearBody)))
    \<and> (width s < column candle \<longrightarrow> s' = s)"
proof -
  have h: "3 \<le> height s" using assms(4) by (simp add: buffer_def)
  note rg = priceToRow_range [OF _ assms(2) h]
  note wh = priceToRow_whole [OF _ assms(3)]
  have range: "0 \<le> highRow" "0 \<le> openRow" "0 \<le> closeRow"
      "openRow < height s" "closeRow < height s" "lowRow < height s"
    using rg [OF rows(1)] rg [OF rows(2)] rg [OF rows(3)] rg [OF rows(4)]
    by (simp_all add: buffer_def)
  obtain s' where s': "drawCandle s candle = Returned s'" "only_data s s'" "grid_ok s'"
    and cells: "\<And>r x. data s' ! r ! x =
          (if int x = column candle \<and> int x < width s
              \<and> max openRow closeRow + 1 \<le> real r \<and> real r \<le> lowRow
           then WickBar
           else if min openRow closeRow \<le> real r \<and> real r \<le> max openRow closeRow
                   \<and> \<bar>int x - column candle\<bar> \<le> 1 \<and> int x < width s
           then (if type candle = bullish then BullBody else BearBody)
           else if int x = column candle \<and> int x < width s
              \<and> highRow \<le> real r \<and> real r < min openRow closeRow
           then WickBar
           else data s ! r ! x)"
    using drawCandle_cells [OF assms(1) rows wh [OF rows(1)] wh [OF rows(2)] wh [OF rows(3)] range]
    by blast
  define top where "top = min openRow closeRow"
  define bottom where "bottom = max openRow closeRow"
  have tb: "top \<in> \<int>" "bottom \<in> \<int>" "0 \<le> top" "top \<le> bottom" "bottom < height s"
    using wh [OF rows(2)] wh [OF rows(3)] range by (auto simp: top_def bottom_def min_def max_def)
  have len: "length (data s') = length (data s)" "length (data s) = nat \<lceil>height s\<rceil>"
    using s'(3) assms(1) only_data_fields [OF s'(2)] by (simp_all add: grid_ok_def)
  have whole: "\<bar>closeRow - openRow\<bar> \<in> \<int>"
    using wh [OF rows(2)] wh [OF rows(3)] by (intro Ints_abs Ints_diff)
  have diff: "\<bar>closeRow - openRow\<bar> = bottom - top"
    by (simp add: top_def bottom_def min_def max_def)
  have count: "real (card {r. r < length (data s') \<and> data s' ! r ! x \<in> {BullBody, BearBody}})
        = \<bar>closeRow - openRow\<bar> + 1"
    if x: "\<bar>int x - column candle\<bar> \<le> 1" "int x < width s"
      and free: "\<forall>r < length (data s). data s ! r ! x \<notin> {BullBody, BearBody}" for x
  proof -
    have "{r. r < length (data s') \<and> data s' ! r ! x \<in> {BullBody, BearBody}}
        = {r. top \<le> real r \<and> real r \<le> bottom}"
    proof (rule set_eqI)
      fix r :: nat
      show "r \<in> {r. r < length (data s') \<and> data s' ! r ! x \<in> {BullBody, BearBody}}
          \<longleftrightarrow> r \<in> {r. top \<le> real r \<and> real r \<le> bottom}"
      proof (cases "top \<le> real r \<and> real r \<le> bottom")
        case True
        then have "real r < height s" using tb(5) by simp
        then have "int r < \<lceil>height s\<rceil>" by linarith
        then have "r < length (data s')" using len by linarith
        moreover have "data s' ! r ! x \<in> {BullBody, BearBody}"
          using cells [of r x] True x by (simp add: top_def bottom_def)
        ultimately show ?thesis using True by simp
      next
        case False
        have "data s' ! r ! x \<notin> {BullBody, BearBody}" if "r < length (data s')"
          using cells [of r x] False free that len(1)
          by (auto simp: top_def bottom_def)
        then show ?thesis using False by auto
      qed
    qed
    then have "card {r. r < length (data s') \<and> data s' ! r ! x \<in> {BullBody, BearBody}}
        = nat \<lfloor>\<bar>closeRow - openRow\<bar>\<rfloor> + 1"
      using nat_interval_card [OF tb(1,2,3,4)] diff by simp
    moreover have "real_of_int \<lfloor>\<bar>closeRow - openRow\<bar>\<rfloor> = \<bar>closeRow - openRow\<bar>"
      using whole by (rule of_int_floor)
    ultimately show ?thesis by simp
  qed
  have off: "s' = s" if "width s < column candle"
    using drawCandle_off_canvas [OF that] s'(1) by simp
  have edge: "data s' ! r ! nat (width s - 1) = (if type candle = bullish then BullBody else BearBody)"
    if "column candle = width s" "0 < width s"
      "min openRow closeRow \<le> real r" "real r \<le> max openRow closeRow" for r
    using cells [of r "nat (width s - 1)"] that by simp
  show ?thesis
    using s'(1) cells count off edge by blast
qed

theorem drawCandle_paints_witness:
  "grid_ok (chart1\<lparr>data := createEmptyMatrix (width chart1) (height chart1)\<rparr>)
   \<and> candles chart1 \<noteq> [] \<and> height chart1 = 8 \<and> width chart1 = 7
   \<and> column (candles chart1 ! 0) = 3
   \<and> drawCandle (chart1\<lparr>data := createEmptyMatrix (width chart1) (height chart1)\<rparr>)
        (candles chart1 ! 0) = Returned chart1
   \<and> data chart1 ! 0 ! 3 = Blank \<and> data chart1 ! 1 ! 3 = WickBar \<and> data chart1 ! 1 ! 2 = Blank
   \<and> data chart1 ! 2 ! 2 = BearBody \<and> data chart1 ! 2 ! 3 = BearBody \<and> data chart1 ! 2 ! 4 = BearBody
   \<and> data chart1 ! 2 ! 5 = Blank
   \<and> data chart1 ! 5 ! 3 = BearBody \<and> data chart1 ! 6 ! 3 = WickBar \<and> data chart1 ! 7 ! 3 = Blank
   \<and> card {r. r < length (data chart1) \<and> data chart1 ! r ! 2 \<in> {BullBody, BearBody}} = 4
   \<and> card {r. r < length (data chart1) \<and> data chart1 ! r ! 3 \<in> {BullBody, BearBody}} = 4
   \<and> card {r. r < length (data chart1) \<and> data chart1 ! r ! 4 \<in> {BullBody, BearBody}} = 4
   \<and> (\<exists>s'. drawCandle (chart1\<lparr>data := createEmptyMatrix (width chart1) (height chart1)\<rparr>)
               ((candles chart1 ! 0)\<lparr>column := 7\<rparr>) = Returned s'
          \<and> data s' ! 1 ! 6 = Blank \<and> data s' ! 2 ! 5 = Blank \<and> data s' ! 2 ! 6 = BearBody
          \<and> data s' ! 5 ! 6 = BearBody \<and> data s' ! 6 ! 6 = Blank
          \<and> card {r. r < length (data s') \<and> data s' ! r ! 6 \<in> {BullBody, BearBody}} = 4)
   \<and> drawCandle (chart1\<lparr>data := createEmptyMatrix (width chart1) (height chart1)\<rparr>)
        ((candles chart1 ! 0)\<lparr>column := 9\<rparr>)
      = Returned (chart1\<lparr>data := createEmptyMatrix (width chart1) (height chart1)\<rparr>)"
proof -
  define b where "b = chart1\<lparr>data := createEmptyMatrix (width chart1) (height chart1)\<rparr>"
  define c where "c = candles chart1 ! 0"
  have g: "grid_ok b" unfolding b_def by (rule grid_ok_blank)
  have ne: "candles b \<noteq> []" by (simp add: b_def chart1_facts)
  have h: "height b \<in> \<int>" "2 * buffer + 1 \<le> height b"
    by (simp_all add: b_def chart1_facts buffer_def)
  have rows: "priceToRow b (highPrice (c\<lparr>column := k\<rparr>)) = Some 1"
    "priceToRow b (openPrice (c\<lparr>column := k\<rparr>)) = Some 2"
    "priceToRow b (closePrice (c\<lparr>column := k\<rparr>)) = Some 5"
    "priceToRow b (lowPrice (c\<lparr>column := k\<rparr>)) = Some 6" for k
    by (simp_all add: b_def c_def chart1_candle chart1_rows)
  have blank: "data b ! r ! x = Blank" if "r < 8" "x < 7" for r x
    using that by (simp add: b_def createEmptyMatrix_eq chart1_facts)
  have lb: "length (data b) = 8" by (simp add: b_def createEmptyMatrix_eq chart1_facts)
  have free: "\<forall>r < length (data b). data b ! r ! x \<notin> {BullBody, BearBody}" if "x < 7" for x
    using blank that lb by simp
  have ty: "type (c\<lparr>column := k\<rparr>) = bearish" for k by (simp add: c_def chart1_candle)
  have c3: "column c = 3" by (simp add: c_def chart1_draw(2))
  have cc: "c\<lparr>column := 3\<rparr> = c" using c3 by simp
  have wb: "width b = 7" by (simp add: b_def chart1_facts)
  have T: "\<exists>s'. drawCandle b (c\<lparr>column := k\<rparr>) = Returned s'
    \<and> (\<forall>r x. data s' ! r ! x =
          (if int x = k \<and> int x < 7 \<and> 6 \<le> real r \<and> real r \<le> 6 then WickBar
           else if 2 \<le> real r \<and> real r \<le> 5 \<and> \<bar>int x - k\<bar> \<le> 1 \<and> int x < 7 then BearBody
           else if int x = k \<and> int x < 7 \<and> 1 \<le> real r \<and> real r < 2 then WickBar
           else data b ! r ! x))
    \<and> (\<forall>x. \<bar>int x - k\<bar> \<le> 1 \<and> x < 7 \<longrightarrow>
          card {r. r < length (data s') \<and> data s' ! r ! x \<in> {BullBody, BearBody}} = 4)
    \<and> (7 < k \<longrightarrow> s' = b)" for k
  proof -
    obtain s' where s': "drawCandle b (c\<lparr>column := k\<rparr>) = Returned s'"
      and cells: "\<And>r x. data s' ! r ! x =
          (if int x = column (c\<lparr>column := k\<rparr>) \<and> int x < width b
              \<and> max 2 5 + 1 \<le> real r \<and> real r \<le> 6
           then WickBar
           else if min 2 5 \<le> real r \<and> real r \<le> max 2 5
                   \<and> \<bar>int x - column (c\<lparr>column := k\<rparr>)\<bar> \<le> 1 \<and> int x < width b
           then (if type (c\<lparr>column := k\<rparr>) = bullish then BullBody else BearBody)
           else if int x = column (c\<lparr>column := k\<rparr>) \<and> int x < width b
              \<and> 1 \<le> real r \<and> real r < min 2 5
           then WickBar
           else data b ! r ! x)"
      and cnt: "\<And>x. \<bar>int x - column (c\<lparr>column := k\<rparr>)\<bar> \<le> 1 \<and> int x < width b
            \<and> (\<forall>r < length (data b). data b ! r ! x \<notin> {BullBody, BearBody})
        \<Longrightarrow> real (card {r. r < length (data s') \<and> data s' ! r ! x \<in> {BullBody, BearBody}})
            = \<bar>5 - 2\<bar> + 1"
      and off: "width b < column (c\<lparr>column := k\<rparr>) \<longrightarrow> s' = b"
      using drawCandle_paints [OF g ne h rows [of k]] by blast
    have "card {r. r < length (data s') \<and> data s' ! r ! x \<in> {BullBody, BearBody}} = 4"
      if "\<bar>int x - k\<bar> \<le> 1" "x < 7" for x
      using cnt [of x] that free [OF that(2)] wb by simp
    moreover have "data s' ! r ! x =
          (if int x = k \<and> int x < 7 \<and> 6 \<le> real r \<and> real r \<le> 6 then WickBar
           else if 2 \<le> real r \<and> real r \<le> 5 \<and> \<bar>int x - k\<bar> \<le> 1 \<and> int x < 7 then BearBody
           else if int x = k \<and> int x < 7 \<and> 1 \<le> real r \<and> real r < 2 then WickBar
           else data b ! r ! x)" for r x
      using cells [of r x] by (simp add: wb ty)
    ultimately show ?thesis
      using s' off wb by auto
  qed
  have d: "drawCandle b c = Returned chart1"
    unfolding b_def c_def by (rule chart1_draw(4))
  have on: "data chart1 ! 0 ! 3 = Blank" "data chart1 ! 1 ! 3 = WickBar" "data chart1 ! 1 ! 2 = Blank"
    "data chart1 ! 2 ! 2 = BearBody" "data chart1 ! 2 ! 3 = BearBody" "data chart1 ! 2 ! 4 = BearBody"
    "data chart1 ! 2 ! 5 = Blank"
    "data chart1 ! 5 ! 3 = BearBody" "data chart1 ! 6 ! 3 = WickBar" "data chart1 ! 7 ! 3 = Blank"
    "card {r. r < length (data chart1) \<and> data chart1 ! r ! 2 \<in> {BullBody, BearBody}} = 4"
    "card {r. r < length (data chart1) \<and> data chart1 ! r ! 3 \<in> {BullBody, BearBody}} = 4"
    "card {r. r < length (data chart1) \<and> data chart1 ! r ! 4 \<in> {BullBody, BearBody}} = 4"
  proof -
    obtain s' where s': "drawCandle b (c\<lparr>column := 3\<rparr>) = Returned s'"
      and cells: "\<And>r x. data s' ! r ! x =
          (if int x = 3 \<and> int x < 7 \<and> 6 \<le> real r \<and> real r \<le> 6 then WickBar
           else if 2 \<le> real r \<and> real r \<le> 5 \<and> \<bar>int x - 3\<bar> \<le> 1 \<and> int x < 7 then BearBody
           else if int x = 3 \<and> int x < 7 \<and> 1 \<le> real r \<and> real r < 2 then WickBar
           else data b ! r ! x)"
      and cnt: "\<And>x. \<bar>int x - 3\<bar> \<le> 1 \<and> x < 7 \<Longrightarrow>
          card {r. r < length (data s') \<and> data s' ! r ! x \<in> {BullBody, BearBody}} = 4"
      using T [of 3] by blast
    have e: "s' = chart1" using s' d cc by simp
    show "data chart1 ! 0 ! 3 = Blank" "data chart1 ! 1 ! 3 = WickBar" "data chart1 ! 1 ! 2 = Blank"
      "data chart1 ! 2 ! 2 = BearBody" "data chart1 ! 2 ! 3 = BearBody" "data chart1 ! 2 ! 4 = BearBody"
      "data chart1 ! 2 ! 5 = Blank"
      "data chart1 ! 5 ! 3 = BearBody" "data chart1 ! 6 ! 3 = WickBar" "data chart1 ! 7 ! 3 = Blank"
      using cells [of 0 3] cells [of 1 3] cells [of 1 2] cells [of 2 2] cells [of 2 3] cells [of 2 4]
        cells [of 2 5] cells [of 5 3] cells [of 6 3] cells [of 7 3] blank
      by (simp_all add: e)
    show "card {r. r < length (data chart1) \<and> data chart1 ! r ! 2 \<in> {BullBody, BearBody}} = 4"
      "card {r. r < length (data chart1) \<and> data chart1 ! r ! 3 \<in> {BullBody, BearBody}} = 4"
      "card {r. r < length (data chart1) \<and> data chart1 ! r ! 4 \<in> {BullBody, BearBody}} = 4"
      using cnt [of 2] cnt [of 3] cnt [of 4] by (simp_all add: e)
  qed
  have edge: "\<exists>s'. drawCandle b (c\<lparr>column := 7\<rparr>) = Returned s'
          \<and> data s' ! 1 ! 6 = Blank \<and> data s' ! 2 ! 5 = Blank \<and> data s' ! 2 ! 6 = BearBody
          \<and> data s' ! 5 ! 6 = BearBody \<and> data s' ! 6 ! 6 = Blank
          \<and> card {r. r < length (data s') \<and> data s' ! r ! 6 \<in> {BullBody, BearBody}} = 4"
  proof -
    obtain s' where s': "drawCandle b (c\<lparr>column := 7\<rparr>) = Returned s'"
      and cells: "\<And>r x. data s' ! r ! x =
          (if int x = 7 \<and> int x < 7 \<and> 6 \<le> real r \<and> real r \<le> 6 then WickBar
           else if 2 \<le> real r \<and> real r \<le> 5 \<and> \<bar>int x - 7\<bar> \<le> 1 \<and> int x < 7 then BearBody
           else if int x = 7 \<and> int x < 7 \<and> 1 \<le> real r \<and> real r < 2 then WickBar
           else data b ! r ! x)"
      and cnt: "\<And>x. \<bar>int x - 7\<bar> \<le> 1 \<and> x < 7 \<Longrightarrow>
          card {r. r < length (data s') \<and> data s' ! r ! x \<in> {BullBody, BearBody}} = 4"
      using T [of 7] by blast
    have "data s' ! 1 ! 6 = Blank" "data s' ! 2 ! 5 = Blank" "data s' ! 2 ! 6 = BearBody"
      "data s' ! 5 ! 6 = BearBody" "data s' ! 6 ! 6 = Blank"
      using cells [of 1 6] cells [of 2 5] cells [of 2 6] cells [of 5 6] cells [of 6 6] blank
      by simp_all
    then show ?thesis using s' cnt [of 6] by simp
  qed
  have beyond: "drawCandle b (c\<lparr>column := 9\<rparr>) = Returned b"
    using T [of 9] by auto
  show ?thesis
    using g d chart1_facts c3 on edge beyond unfolding b_def c_def by simp
qed

text \<open>
  C8. After either add method has run on a reachable session, every row within \<open>buffer\<close>
  of the top of the grid and every row within \<open>buffer\<close> of its bottom is blank, and
  the grid has more rows than these two margins.
\<close>

theorem margins_stay_blank:
  assumes "reachable s"
  shows "margins_blank (after (addFirstCandle s candle))
    \<and> margins_blank (after (addCandle s candle))
    \<and> 2 * buffer < real (length (data (after (addFirstCandle s candle))))
    \<and> 2 * buffer < real (length (data (after (addCandle s candle))))"
proof -
  have h: "3 \<le> height s" using reachable_invariant [OF assms] by simp
  have "reachable (after (addFirstCandle s candle))" "reachable (after (addCandle s candle))"
    using assms by (auto intro: reachable.intros)
  then have "grid_ok (after (addFirstCandle s candle)) \<and> 7 \<le> height (after (addFirstCandle s candle))"
    "grid_ok (after (addCandle s candle)) \<and> 7 \<le> height (after (addCandle s candle))"
    using reachable_invariant by blast+
  then have "7 \<le> length (data (after (addFirstCandle s candle)))"
    "7 \<le> length (data (after (addCandle s candle)))"
    unfolding grid_ok_def by linarith+
  then show ?thesis
    using addFirstCandle_margins [OF h, of candle] addCandle_margins [OF h, of candle]
    by (simp add: buffer_def)
qed

theorem margins_stay_blank_witness:
  "reachable init
   \<and> margins_blank (after (addCandle init \<lparr>type = bearish, bodySize = 3, upperWick = 1, lowerWick = 2\<rparr>))
   \<and> 2 * buffer < real (length (data (after (addCandle init
        \<lparr>type = bearish, bodySize = 3, upperWick = 1, lowerWick = 2\<rparr>))))"
  using margins_stay_blank [OF reachable_init] reachable_init by blast

text \<open>
  C9. On an empty session \<open>addCandle\<close> is \<open>addFirstCandle\<close> (lemma
  \<open>addCandle_empty_delegates\<close>: the two outcomes are equal), but the call can fail:
  \<open>addBearish(0, 6, 0.5)\<close> on a new chart throws. The height has become \<open>17/2\<close>, the
  body maps to the row \<open>13/2\<close>, and \<open>setCell\<close> indexes the grid with it.
\<close>

theorem addCandle_on_empty_session_throws:
  "candles init = []
   \<and> addBearish init 0 6 (1 / 2) = firstBearish init 0 6 (1 / 2)
   \<and> \<not> returns (addBearish init 0 6 (1 / 2))
   \<and> height (after (addBearish init 0 6 (1 / 2))) = 17 / 2"
proof -
  have d: "addBearish init 0 6 (1 / 2) = firstBearish init 0 6 (1 / 2)"
    by (simp add: addBearish_def firstBearish_def addCandle_empty_delegates init_facts)
  have "\<not> returns (firstBearish init 0 6 (1 / 2))"
    unfolding firstBearish_def
    by (rule fractional_first_candle_throws [of _ "\<lparr>type = bearish, bodySize = 3, upperWick = 1,
      lowerWick = 2, column = 0, highPrice = 101, openPrice = 100, closePrice = 97, lowPrice = 95\<rparr>"])
       (simp_all add: init_facts)
  moreover have "height (after (firstBearish init 0 6 (1 / 2))) = 17 / 2"
    using first_on_init(6) [of "\<lparr>type = bearish, bodySize = 0, upperWick = 6, lowerWick = 1 / 2\<rparr>"]
    by (simp add: firstBearish_def)
  ultimately show ?thesis
    using d init_facts(1) by simp
qed

text \<open>
  C10. On a session that already has candles \<open>addFirstCandle\<close> appends a candle
  anchored at 100 and replaces both price bounds by that candle's low and high price
  (lemma \<open>addFirstCandle_after\<close>), but the call can fail: after \<open>firstBearish(3, 1, 2)\<close>,
  which returns, \<open>firstBearish(0, 6, 0.5)\<close> throws while the first candle is redrawn.
\<close>

theorem addFirstCandle_on_nonempty_session_throws:
  "candles chart1 \<noteq> [] \<and> returns (firstBearish init 3 1 2)
   \<and> \<not> returns (firstBearish chart1 0 6 (1 / 2))"
proof -
  have "\<not> returns (firstBearish chart1 0 6 (1 / 2))"
    unfolding firstBearish_def
    by (rule fractional_first_candle_throws [of _ "candles chart1 ! 0"])
       (simp_all add: chart1_facts chart1_candle)
  moreover have "returns (firstBearish init 3 1 2)"
    unfolding firstBearish_def by (rule addFirstCandle_returns) (simp_all add: init_facts)
  ultimately show ?thesis
    using chart1_facts(1) by simp
qed

end
